theory Spec2Isabelle
  imports Complex_Main
begin

section \<open>CCA supply schedule: the model of \<open>supply-schedule/server.py\<close>\<close>

text \<open>
  The program computes a token emission schedule with Python's unbounded integers and
  with floats. Integers are modelled as \<^typ>\<open>int\<close>. The float arithmetic the program
  calls is a parameter of the model: a record of the operations, over an arbitrary
  carrier \<open>'f\<close>. Every operation that can raise in Python returns a sum, the exception on
  the left. A theorem stated for an arbitrary record holds for whatever the platform's
  floats compute; section \<open>binary64\<close> below gives the record of IEEE 754 double precision,
  on which concrete requests are evaluated.
\<close>

subsection \<open>Exceptions and their propagation\<close>

datatype exn =
    ZeroDivisionError
  | OverflowError
  | ValueError
  | TypeError
  | IndexError
  | ValidationError

text \<open>Sequencing of two computations; the first exception raised ends the run.\<close>

definition bindE :: "exn + 'a \<Rightarrow> ('a \<Rightarrow> exn + 'b) \<Rightarrow> exn + 'b" where
  "bindE r k = (case r of Inl e \<Rightarrow> Inl e | Inr v \<Rightarrow> k v)"

subsection \<open>The float operations the program uses\<close>

record 'f float_ops =
  of_int_f :: "int \<Rightarrow> exn + 'f"
    \<comment> \<open>conversion of an int operand of a mixed operation; OverflowError when too large\<close>
  decimal_f :: "int \<Rightarrow> nat \<Rightarrow> 'f"
    \<comment> \<open>the float literal with digits \<open>m\<close> and \<open>k\<close> places after the point: \<open>1.2\<close> is \<open>12\<close>, \<open>1\<close>\<close>
  sub_f :: "'f \<Rightarrow> 'f \<Rightarrow> 'f"
  mul_f :: "'f \<Rightarrow> 'f \<Rightarrow> 'f"
  div_f :: "'f \<Rightarrow> 'f \<Rightarrow> 'f"
    \<comment> \<open>float quotient, called with a divisor that is not zero\<close>
  is_zero_f :: "'f \<Rightarrow> bool"
  quot_int_f :: "int \<Rightarrow> int \<Rightarrow> exn + 'f"
    \<comment> \<open>the float nearest to \<open>a / b\<close> for ints, \<open>b\<close> not zero; OverflowError when too large\<close>
  pow_f :: "'f \<Rightarrow> 'f \<Rightarrow> exn + 'f"
  round_f :: "'f \<Rightarrow> exn + int"
    \<comment> \<open>\<open>round(x)\<close>: to the nearest int, ties to even; raises on infinities and NaN\<close>
  gt_zero_f :: "'f \<Rightarrow> bool"
  round_ndigits_f :: "'f \<Rightarrow> nat \<Rightarrow> exn + 'f"
    \<comment> \<open>\<open>round(x, n)\<close>; OverflowError when the rounded value is too large\<close>

text \<open>Python's mixed int/float arithmetic converts the int operand first.\<close>

definition float_truediv :: "'f float_ops \<Rightarrow> 'f \<Rightarrow> 'f \<Rightarrow> exn + 'f" where
  "float_truediv fo x y = (if is_zero_f fo y then Inl ZeroDivisionError else Inr (div_f fo x y))"

definition int_truediv :: "'f float_ops \<Rightarrow> int \<Rightarrow> int \<Rightarrow> exn + 'f" where
  "int_truediv fo a b = (if b = 0 then Inl ZeroDivisionError else quot_int_f fo a b)"

definition float_pow_int :: "'f float_ops \<Rightarrow> 'f \<Rightarrow> int \<Rightarrow> exn + 'f" where
  "float_pow_int fo x n = bindE (of_int_f fo n) (\<lambda>y. pow_f fo x y)"

definition float_sub_int :: "'f float_ops \<Rightarrow> 'f \<Rightarrow> int \<Rightarrow> exn + 'f" where
  "float_sub_int fo x n = bindE (of_int_f fo n) (\<lambda>y. Inr (sub_f fo x y))"

definition float_mul_int :: "'f float_ops \<Rightarrow> 'f \<Rightarrow> int \<Rightarrow> exn + 'f" where
  "float_mul_int fo x n = bindE (of_int_f fo n) (\<lambda>y. Inr (mul_f fo x y))"

definition float_div_int :: "'f float_ops \<Rightarrow> 'f \<Rightarrow> int \<Rightarrow> exn + 'f" where
  "float_div_int fo x n = bindE (of_int_f fo n) (\<lambda>y. float_truediv fo x y)"

definition int_div_float :: "'f float_ops \<Rightarrow> int \<Rightarrow> 'f \<Rightarrow> exn + 'f" where
  "int_div_float fo n y = bindE (of_int_f fo n) (\<lambda>x. float_truediv fo x y)"

subsection \<open>Module constants\<close>

definition TOTAL_TARGET :: int where
  "TOTAL_TARGET = 10000000"

definition NUM_SEGMENTS :: int where
  "NUM_SEGMENTS = 10"

definition GROWTH_EXPONENT :: "'f float_ops \<Rightarrow> 'f" where
  "GROWTH_EXPONENT fo = decimal_f fo 12 1"

subsection \<open>\<open>calculate_block_durations\<close>\<close>

text \<open>
  The loop \<open>for i in range(num_segments)\<close>, over the indices still to visit, with the
  list \<open>durations\<close> built so far.
\<close>

fun durations_loop :: "'f float_ops \<Rightarrow> 'f \<Rightarrow> 'f \<Rightarrow> int list \<Rightarrow> int list \<Rightarrow> exn + int list" where
  "durations_loop fo b0 growth_factor [] durations = Inr durations"
| "durations_loop fo b0 growth_factor (i # rest) durations =
     bindE (float_pow_int fo growth_factor i) (\<lambda>p.
     bindE (round_f fo (mul_f fo b0 p)) (\<lambda>r.
       let duration_int = max 1 r
       in durations_loop fo b0 growth_factor rest (durations @ [duration_int])))"

definition calculate_block_durations ::
  "'f float_ops \<Rightarrow> int \<Rightarrow> int \<Rightarrow> 'f \<Rightarrow> exn + int list" where
  "calculate_block_durations fo total_blocks num_segments growth_factor =
     bindE (float_pow_int fo growth_factor num_segments) (\<lambda>p.
     bindE (float_sub_int fo p 1) (\<lambda>numer.
     bindE (float_sub_int fo growth_factor 1) (\<lambda>denom.
     bindE (float_truediv fo numer denom) (\<lambda>geometric_sum.
     bindE (int_div_float fo total_blocks geometric_sum) (\<lambda>b0.
     bindE (durations_loop fo b0 growth_factor [0..num_segments - 1] []) (\<lambda>durations.
       let actual_total = sum_list durations in
       if actual_total \<noteq> total_blocks then
         (if durations = [] then Inl IndexError
          else
            let n = length durations;
                durations1 = durations[n - 1 := durations ! (n - 1) + (total_blocks - actual_total)];
                durations2 = durations1[n - 1 := max 1 (durations1 ! (n - 1))]
            in Inr durations2)
       else Inr durations))))))"

subsection \<open>\<open>generate_schedule\<close>\<close>

record phase =
  mps :: int
  blockDelta :: int

text \<open>
  The loop over \<open>block_durations\<close>. Its state is \<open>cumulative_blocks\<close>,
  \<open>cumulative_tokens\<close> and the \<open>schedule\<close> built so far; it returns the last two.
\<close>

fun segments_loop ::
  "'f float_ops \<Rightarrow> int \<Rightarrow> int list \<Rightarrow> int \<Rightarrow> int \<Rightarrow> phase list \<Rightarrow> exn + (int \<times> phase list)" where
  "segments_loop fo blocks_for_segments [] cumulative_blocks cumulative_tokens schedule =
     Inr (cumulative_tokens, schedule)"
| "segments_loop fo blocks_for_segments (block_delta # rest) cumulative_blocks cumulative_tokens schedule =
     (let start_block = cumulative_blocks;
          end_block = cumulative_blocks + block_delta
      in
      bindE (int_truediv fo start_block blocks_for_segments) (\<lambda>start_ratio.
      bindE (pow_f fo start_ratio (GROWTH_EXPONENT fo)) (\<lambda>start_pct.
      bindE (int_truediv fo end_block blocks_for_segments) (\<lambda>end_ratio.
      bindE (pow_f fo end_ratio (GROWTH_EXPONENT fo)) (\<lambda>end_pct.
      bindE (float_mul_int fo (mul_f fo start_pct (decimal_f fo 7 1)) TOTAL_TARGET) (\<lambda>start_tokens.
      bindE (float_mul_int fo (mul_f fo end_pct (decimal_f fo 7 1)) TOTAL_TARGET) (\<lambda>end_tokens.
        let segment_tokens = sub_f fo end_tokens start_tokens in
        bindE (float_div_int fo segment_tokens block_delta) (\<lambda>rate.
        bindE (round_f fo rate) (\<lambda>mps0.
          let mps1 = (if gt_zero_f fo segment_tokens then max 1 mps0 else mps0)
          in segments_loop fo blocks_for_segments rest
               (cumulative_blocks + block_delta)
               (cumulative_tokens + mps1 * block_delta)
               (schedule @ [\<lparr>mps = mps1, blockDelta = block_delta\<rparr>]))))))))))"

definition generate_schedule :: "'f float_ops \<Rightarrow> int \<Rightarrow> int \<Rightarrow> exn + phase list" where
  "generate_schedule fo auction_blocks prebid_blocks =
     (let schedule0 = (if prebid_blocks > 0 then [\<lparr>mps = 0, blockDelta = prebid_blocks\<rparr>] else []);
          blocks_for_segments = auction_blocks - 1
      in
      bindE (calculate_block_durations fo blocks_for_segments NUM_SEGMENTS (GROWTH_EXPONENT fo))
        (\<lambda>block_durations.
      bindE (segments_loop fo blocks_for_segments block_durations 0 0 schedule0)
        (\<lambda>(cumulative_tokens, schedule).
          let final_tokens = TOTAL_TARGET - cumulative_tokens
          in Inr (schedule @ [\<lparr>mps = final_tokens, blockDelta = 1\<rparr>]))))"

subsection \<open>The execution of \<open>generate_schedule\<close> as a relation\<close>









subsection \<open>Input validation and \<open>call_tool\<close>\<close>

text \<open>
  \<open>GenerateScheduleInput\<close>: \<open>auction_blocks\<close> is required and greater than 0;
  \<open>prebid_blocks\<close> defaults to 0 and is at least 0. The arguments are modelled after
  type coercion: an int, and an optional int.
\<close>

definition GenerateScheduleInput :: "int \<Rightarrow> int option \<Rightarrow> exn + (int \<times> int)" where
  "GenerateScheduleInput auction_blocks prebid_blocks =
     (let prebid = (case prebid_blocks of None \<Rightarrow> 0 | Some p \<Rightarrow> p)
      in if \<not> auction_blocks > 0 then Inl ValidationError
         else if \<not> prebid \<ge> 0 then Inl ValidationError
         else Inr (auction_blocks, prebid))"

record 'f summary =
  total_mps :: int
  target_mps :: int
  final_block_mps :: int
  final_block_percentage :: 'f
  num_segments :: int
  growth_exponent :: 'f

record 'f tool_output =
  schedule_out :: "phase list"
  auction_blocks_out :: int
  prebid_blocks_out :: int
  total_phases :: nat
  summary_out :: "'f summary"

text \<open>
  The reply of the tool: the output, or the error payload that the handler builds from
  any exception raised inside its \<open>try\<close> block.
\<close>

datatype 'f reply = Output "'f tool_output" | Failed exn

definition total_supply :: "phase list \<Rightarrow> int" where
  "total_supply schedule = (\<Sum>item\<leftarrow>schedule. mps item * blockDelta item)"

definition total_blocks_of :: "phase list \<Rightarrow> int" where
  "total_blocks_of schedule = (\<Sum>item\<leftarrow>schedule. blockDelta item)"

definition tool_body :: "'f float_ops \<Rightarrow> int \<Rightarrow> int option \<Rightarrow> exn + 'f tool_output" where
  "tool_body fo auction_blocks prebid_blocks =
     bindE (GenerateScheduleInput auction_blocks prebid_blocks) (\<lambda>(ab, pb).
     bindE (generate_schedule fo ab pb) (\<lambda>schedule.
       let total = total_supply schedule in
       if schedule = [] then Inl IndexError
       else
         let final = mps (last schedule) in
         bindE (int_truediv fo final TOTAL_TARGET) (\<lambda>share.
         bindE (float_mul_int fo share 100) (\<lambda>percentage.
         bindE (round_ndigits_f fo percentage 2) (\<lambda>shown.
           Inr \<lparr>schedule_out = schedule,
                auction_blocks_out = ab,
                prebid_blocks_out = pb,
                total_phases = length schedule,
                summary_out = \<lparr>total_mps = total, target_mps = TOTAL_TARGET,
                                final_block_mps = final,
                                final_block_percentage = shown,
                                num_segments = NUM_SEGMENTS,
                                growth_exponent = GROWTH_EXPONENT fo\<rparr>\<rparr>)))))"

text \<open>
  \<open>call_tool\<close>: an unknown tool name raises outside the \<open>try\<close> block; everything
  else is answered, with the output or with the error payload.
\<close>

definition call_tool :: "'f float_ops \<Rightarrow> string \<Rightarrow> int \<Rightarrow> int option \<Rightarrow> exn + 'f reply" where
  "call_tool fo name auction_blocks prebid_blocks =
     (if name \<noteq> ''generate_supply_schedule'' then Inl ValueError
      else case tool_body fo auction_blocks prebid_blocks of
             Inl e \<Rightarrow> Inr (Failed e)
           | Inr out \<Rightarrow> Inr (Output out))"

section \<open>binary64: the floats of the platform\<close>

text \<open>
  CPython's float is the IEEE 754 double. A finite double is modelled by a pair
  \<open>Fin m e\<close> of integers with value \<open>m * 2 ^ e\<close>; the sign of a zero is not represented
  (no operation of this program observes it). Addition, subtraction, multiplication,
  division, the conversions and \<open>round\<close> are correctly rounded, to nearest with ties to
  even, as IEEE 754 and CPython specify them.
\<close>

datatype binary64 = Fin int int | PInf | NInf | NaN

text \<open>\<open>int.bit_length\<close>, for a non-negative int.\<close>

function bit_length :: "int \<Rightarrow> nat" where
  "bit_length n = (if n \<le> 0 then 0 else Suc (bit_length (n div 2)))"
  by pat_completeness auto
termination
  by (relation "measure nat") auto

declare bit_length.simps [simp del]

text \<open>The integer nearest to \<open>a / 2 ^ k\<close>, ties to even, for \<open>a\<close> not negative.\<close>

definition shift_round :: "int \<Rightarrow> nat \<Rightarrow> int" where
  "shift_round a k =
     (let q = a div 2 ^ k; r = a mod 2 ^ k
      in if 2 * r > 2 ^ k \<or> (2 * r = 2 ^ k \<and> odd q) then q + 1 else q)"

text \<open>
  The double nearest to \<open>m * 2 ^ e\<close>. For the magnitude \<open>a * 2 ^ e\<close>, the last of
  its 53 significant bits has the weight \<open>2 ^ ulp_exponent a e\<close>, at least \<open>2 ^ - 1074\<close>
  (gradual underflow); \<open>significand a e\<close> is the magnitude rounded to a multiple of
  that weight. From \<open>2 ^ 1024\<close> on the result is an infinity.
\<close>

definition ulp_exponent :: "int \<Rightarrow> int \<Rightarrow> int" where
  "ulp_exponent a e = max (int (bit_length a) + e - 53) (- 1074)"

definition significand :: "int \<Rightarrow> int \<Rightarrow> int" where
  "significand a e =
     (let t = ulp_exponent a e
      in if t \<le> e then a * 2 ^ nat (e - t) else shift_round a (nat (t - e)))"

definition round_binary64 :: "int \<Rightarrow> int \<Rightarrow> binary64" where
  "round_binary64 m e =
     (if m = 0 then Fin 0 0
      else
        let a = \<bar>m\<bar>;
            t = ulp_exponent a e;
            q = significand a e
        in if int (bit_length q) + t > 1024 then (if m > 0 then PInf else NInf)
           else Fin (if m > 0 then q else - q) t)"

text \<open>
  The double nearest to the quotient of \<open>m1 * 2 ^ e1\<close> by \<open>m2 * 2 ^ e2\<close>: at least 55
  bits of the quotient, and one more bit that says whether the division left a rest.
\<close>

definition div_round :: "int \<Rightarrow> int \<Rightarrow> int \<Rightarrow> int \<Rightarrow> binary64" where
  "div_round m1 e1 m2 e2 =
     (let a = \<bar>m1\<bar>; b = \<bar>m2\<bar>;
          sh = nat (55 + int (bit_length b) - int (bit_length a));
          q = (a * 2 ^ sh) div b;
          r = (a * 2 ^ sh) mod b;
          qs = 2 * q + (if r = 0 then 0 else 1)
      in round_binary64 (if (m1 < 0) = (m2 < 0) then qs else - qs) (e1 - e2 - int sh - 1))"

fun b64_neg :: "binary64 \<Rightarrow> binary64" where
  "b64_neg (Fin m e) = Fin (- m) e"
| "b64_neg PInf = NInf"
| "b64_neg NInf = PInf"
| "b64_neg NaN = NaN"

fun b64_sub :: "binary64 \<Rightarrow> binary64 \<Rightarrow> binary64" where
  "b64_sub (Fin m1 e1) (Fin m2 e2) =
     (let e = min e1 e2
      in round_binary64 (m1 * 2 ^ nat (e1 - e) - m2 * 2 ^ nat (e2 - e)) e)"
| "b64_sub NaN y = NaN"
| "b64_sub x NaN = NaN"
| "b64_sub PInf PInf = NaN"
| "b64_sub NInf NInf = NaN"
| "b64_sub PInf y = PInf"
| "b64_sub NInf y = NInf"
| "b64_sub (Fin m e) PInf = NInf"
| "b64_sub (Fin m e) NInf = PInf"

fun b64_mul :: "binary64 \<Rightarrow> binary64 \<Rightarrow> binary64" where
  "b64_mul (Fin m1 e1) (Fin m2 e2) = round_binary64 (m1 * m2) (e1 + e2)"
| "b64_mul NaN y = NaN"
| "b64_mul x NaN = NaN"
| "b64_mul (Fin m e) y = (if m = 0 then NaN else if m > 0 then y else b64_neg y)"
| "b64_mul x (Fin m e) = (if m = 0 then NaN else if m > 0 then x else b64_neg x)"
| "b64_mul x y = (if x = y then PInf else NInf)"

fun b64_div :: "binary64 \<Rightarrow> binary64 \<Rightarrow> binary64" where
  "b64_div (Fin m1 e1) (Fin m2 e2) = (if m2 = 0 then NaN else div_round m1 e1 m2 e2)"
| "b64_div NaN y = NaN"
| "b64_div x NaN = NaN"
| "b64_div (Fin m e) y = Fin 0 0"
| "b64_div x (Fin m e) = (if m \<ge> 0 then x else b64_neg x)"
| "b64_div x y = NaN"

fun b64_is_zero :: "binary64 \<Rightarrow> bool" where
  "b64_is_zero (Fin m e) = (m = 0)"
| "b64_is_zero x = False"

fun b64_gt_zero :: "binary64 \<Rightarrow> bool" where
  "b64_gt_zero (Fin m e) = (m > 0)"
| "b64_gt_zero PInf = True"
| "b64_gt_zero x = False"

text \<open>An infinite result of a conversion or of an int division is an OverflowError.\<close>

fun finite_or_overflow :: "binary64 \<Rightarrow> exn + binary64" where
  "finite_or_overflow (Fin m e) = Inr (Fin m e)"
| "finite_or_overflow x = Inl OverflowError"

definition b64_of_int :: "int \<Rightarrow> exn + binary64" where
  "b64_of_int n = finite_or_overflow (round_binary64 n 0)"

definition b64_quot_int :: "int \<Rightarrow> int \<Rightarrow> exn + binary64" where
  "b64_quot_int a b = finite_or_overflow (div_round a 0 b 0)"

definition b64_decimal :: "int \<Rightarrow> nat \<Rightarrow> binary64" where
  "b64_decimal m k = div_round m 0 (10 ^ k) 0"

text \<open>The integer nearest to \<open>m * 2 ^ e * 10 ^ n\<close>, ties to even.\<close>

definition nearest_int :: "int \<Rightarrow> int \<Rightarrow> nat \<Rightarrow> int" where
  "nearest_int m e n =
     (let a = \<bar>m\<bar> * 10 ^ n;
          q = (if e \<ge> 0 then a * 2 ^ nat e else shift_round a (nat (- e)))
      in if m \<ge> 0 then q else - q)"

fun b64_round :: "binary64 \<Rightarrow> exn + int" where
  "b64_round (Fin m e) = Inr (nearest_int m e 0)"
| "b64_round NaN = Inl ValueError"
| "b64_round x = Inl OverflowError"

fun b64_round_ndigits :: "binary64 \<Rightarrow> nat \<Rightarrow> exn + binary64" where
  "b64_round_ndigits (Fin m e) n = finite_or_overflow (div_round (nearest_int m e n) 0 (10 ^ n) 0)"
| "b64_round_ndigits x n = Inr x"


subsection \<open>The value of a double, and rounding to the nearest integer\<close>

text \<open>
  The value of \<open>Fin m e\<close> as a rational number, and the integer nearest to a rational
  number, ties to even. The rounding of the model is stated against them.
\<close>

definition valof :: "int \<Rightarrow> int \<Rightarrow> rat" where
  "valof m e = of_int m * 2 powi e"

definition rne :: "rat \<Rightarrow> int" where
  "rne x = (let f = \<lfloor>x\<rfloor> in
     if x - of_int f > 1 / 2 \<or> (x - of_int f = 1 / 2 \<and> odd f) then f + 1 else f)"

subsection \<open>The power function\<close>

text \<open>
  \<open>float.__pow__\<close> settles the special cases itself and passes a positive finite base
  other than 1 with a finite non-zero exponent to the C library's \<open>pow\<close>, which is not
  part of the repository. The library function is modelled by the double nearest to
  \<open>exp (y * ln x)\<close>, computed in fixed point with 128 fractional bits: the logarithm by
  the series of the inverse hyperbolic tangent on a mantissa between \<open>sqrt 2 / 2\<close> and
  \<open>sqrt 2\<close>, the exponential by its Taylor series on a remainder of at most \<open>ln 2 / 2\<close>.
  A C library's \<open>pow\<close> need not be correctly rounded and can differ from this value by
  one unit in the last place.
\<close>

definition LN2 :: int where
  \<comment> \<open>\<open>ln 2\<close>, in units of \<open>2 ^ - 128\<close>\<close>
  "LN2 = 235865763225513294137944142764154484399"

fun atanh_series :: "int \<Rightarrow> int \<Rightarrow> int \<Rightarrow> nat \<Rightarrow> int \<Rightarrow> int" where
  "atanh_series w pw d 0 acc = acc"
| "atanh_series w pw d (Suc n) acc =
     atanh_series w ((pw * w) div 2 ^ 128) (d + 2) n (acc + pw div d)"

definition ln_fix :: "int \<Rightarrow> int \<Rightarrow> int" where
  "ln_fix a e =
     (let n = int (bit_length a);
          low = (2 * a * a < 2 ^ nat (2 * n));
          k = (if low then n + e - 1 else n + e);
          num = (if low then 2 * a else a);
          den = 2 ^ nat n;
          z = ((num - den) * 2 ^ 128) div (num + den);
          w = (z * z) div 2 ^ 128
      in 2 * atanh_series w z 1 26 0 + k * LN2)"

fun exp_series :: "int \<Rightarrow> int \<Rightarrow> int \<Rightarrow> nat \<Rightarrow> int \<Rightarrow> int" where
  "exp_series r tm j 0 acc = acc"
| "exp_series r tm j (Suc n) acc =
     exp_series r ((tm * r) div (2 ^ 128 * j)) (j + 1) n (acc + tm)"

definition pow_pos :: "int \<Rightarrow> int \<Rightarrow> int \<Rightarrow> int \<Rightarrow> binary64" where
  "pow_pos a e b g =
     (let l = ln_fix a e;
          t = (if g \<ge> 0 then b * l * 2 ^ nat g else (b * l) div 2 ^ nat (- g));
          k = (2 * t + LN2) div (2 * LN2);
          r = t - k * LN2
      in if k > 1100 then PInf
         else if k < - 1200 then Fin 0 0
         else round_binary64 (exp_series r (2 ^ 128) 1 30 0) (k - 128))"

text \<open>Comparisons of a finite double with 1, and the tests on the exponent.\<close>

definition eq_one :: "int \<Rightarrow> int \<Rightarrow> bool" where
  "eq_one a e = (e \<le> 0 \<and> a = 2 ^ nat (- e))"

definition gt_one :: "int \<Rightarrow> int \<Rightarrow> bool" where
  "gt_one a e = (if e \<ge> 0 then a * 2 ^ nat e > 1 else a > 2 ^ nat (- e))"

definition is_integer :: "int \<Rightarrow> int \<Rightarrow> bool" where
  "is_integer b g = (g \<ge> 0 \<or> b mod 2 ^ nat (- g) = 0)"

definition is_odd_integer :: "int \<Rightarrow> int \<Rightarrow> bool" where
  "is_odd_integer b g =
     (if g \<ge> 0 then odd (b * 2 ^ nat g)
      else b mod 2 ^ nat (- g) = 0 \<and> odd (b div 2 ^ nat (- g)))"

text \<open>
  \<open>float_pow\<close> of CPython, case by case in its order. A negative base with an exponent
  that is not an integer gives a complex number in Python; every use of a power in this
  program ends in \<open>round\<close>, which raises TypeError on a complex number, so the model
  raises it at the power. An infinite result of the library function is an
  OverflowError.
\<close>

fun b64_pow :: "binary64 \<Rightarrow> binary64 \<Rightarrow> exn + binary64" where
  "b64_pow x (Fin b g) =
     (if b = 0 then Inr (Fin 1 0)
      else case x of
        NaN \<Rightarrow> Inr NaN
      | PInf \<Rightarrow> Inr (if b > 0 then PInf else Fin 0 0)
      | NInf \<Rightarrow> Inr (if b > 0 then (if is_odd_integer b g then NInf else PInf) else Fin 0 0)
      | Fin a e \<Rightarrow>
          if a = 0 then (if b < 0 then Inl ZeroDivisionError else Inr (Fin 0 0))
          else if a < 0 \<and> \<not> is_integer b g then Inl TypeError
          else
            let negate_result = (a < 0 \<and> is_odd_integer b g);
                iv = \<bar>a\<bar>
            in if eq_one iv e then Inr (Fin (if negate_result then - 1 else 1) 0)
               else case pow_pos iv e b g of
                      Fin c h \<Rightarrow> Inr (Fin (if negate_result then - c else c) h)
                    | _ \<Rightarrow> Inl OverflowError)"
| "b64_pow x NaN = (case x of Fin a e \<Rightarrow> if eq_one a e then Inr (Fin 1 0) else Inr NaN | _ \<Rightarrow> Inr NaN)"
| "b64_pow x y =
     (case x of
        NaN \<Rightarrow> Inr NaN
      | Fin a e \<Rightarrow>
          if eq_one \<bar>a\<bar> e then Inr (Fin 1 0)
          else if (y = PInf) = gt_one \<bar>a\<bar> e then Inr PInf
          else Inr (Fin 0 0)
      | _ \<Rightarrow> Inr (if y = PInf then PInf else Fin 0 0))"

definition binary64_ops :: "binary64 float_ops" where
  "binary64_ops =
     \<lparr>of_int_f = b64_of_int,
      decimal_f = b64_decimal,
      sub_f = b64_sub,
      mul_f = b64_mul,
      div_f = b64_div,
      is_zero_f = b64_is_zero,
      quot_int_f = b64_quot_int,
      pow_f = b64_pow,
      round_f = b64_round,
      gt_zero_f = b64_gt_zero,
      round_ndigits_f = b64_round_ndigits\<rparr>"


subsection \<open>The planner's loop with the powers tabulated\<close>

text \<open>
  On binary64 the ten powers \<open>growth_factor ** i\<close> of the planner are constants. The loop
  of \<open>calculate_block_durations\<close> is restated over their table, and \<open>last_fits\<close> says
  of a block budget that the ninth rounded duration is at most the corrected tenth,
  \<open>max 1 (total_blocks - sum of the first nine)\<close>.
\<close>

fun tabulated_loop :: "binary64 \<Rightarrow> (int \<times> int) list \<Rightarrow> int list \<Rightarrow> exn + int list" where
  "tabulated_loop b0 [] durations = Inr durations"
| "tabulated_loop b0 ((a, x) # rest) durations =
     bindE (b64_round (b64_mul b0 (Fin a x))) (\<lambda>r.
       tabulated_loop b0 rest (durations @ [max 1 r]))"

definition growth_powers :: "(int \<times> int) list" where
  "growth_powers =
     [(1, 0), (5404319552844595, - 52), (6485183463413514, - 52),
      (7782220156096216, - 52), (4669332093657730, - 51), (5603198512389275, - 51),
      (6723838214867130, - 51), (8068605857840556, - 51), (4841163514704333, - 50),
      (5809396217645200, - 50)]"

definition last_fits :: "int \<Rightarrow> bool" where
  "last_fits tb =
     (case int_div_float binary64_ops tb (Fin 7306719442914520 (- 48)) of
        Inr b0 \<Rightarrow>
          (case tabulated_loop b0 growth_powers [] of
             Inr durations \<Rightarrow> durations ! 8 \<le> max 1 (tb - sum_list (butlast durations))
           | Inl e \<Rightarrow> False)
      | Inl e \<Rightarrow> False)"


section \<open>Properties of the schedule, for any float arithmetic\<close>

subsection \<open>Sequencing\<close>

lemma bindE_Inr_iff: "bindE r k = Inr v \<longleftrightarrow> (\<exists>u. r = Inr u \<and> k u = Inr v)"
  by (cases r) (simp_all add: bindE_def)

lemma bindE_Inr [simp]: "bindE (Inr u) k = k u"
  by (simp add: bindE_def)

lemma bindE_Inl [simp]: "bindE (Inl e) k = Inl e"
  by (simp add: bindE_def)

lemma durations_loop_shape:
  "durations_loop fo b0 gf idx acc = Inr ds \<Longrightarrow>
     \<exists>new. ds = acc @ new \<and> length new = length idx \<and> (\<forall>d \<in> set new. 1 \<le> d)"
proof (induction idx arbitrary: acc)
  case Nil
  then show ?case by simp
next
  case (Cons i rest)
  from Cons.prems obtain p r where
    rec: "durations_loop fo b0 gf rest (acc @ [max 1 r]) = Inr ds"
    by (auto simp: bindE_Inr_iff Let_def)
  from Cons.IH [OF rec] obtain new where
    "ds = (acc @ [max 1 r]) @ new" "length new = length rest" "\<forall>d \<in> set new. 1 \<le> d"
    by blast
  then have "ds = acc @ (max 1 r # new) \<and> length (max 1 r # new) = length (i # rest)
      \<and> (\<forall>d \<in> set (max 1 r # new). 1 \<le> d)"
    by simp
  then show ?case by blast
qed

lemma calculate_block_durations_shape:
  assumes "calculate_block_durations fo total_blocks n gf = Inr ds"
  shows "length ds = nat n"
    and "\<forall>d \<in> set ds. 1 \<le> d"
    and "ds \<noteq> [] \<Longrightarrow> last ds = max 1 (total_blocks - sum_list (butlast ds))"
proof -
  from assms obtain b0 durations where
    loop: "durations_loop fo b0 gf [0..n - 1] [] = Inr durations" and
    fin: "(let actual_total = sum_list durations in
       if actual_total \<noteq> total_blocks then
         (if durations = [] then Inl IndexError
          else
            let k = length durations;
                durations1 = durations[k - 1 := durations ! (k - 1) + (total_blocks - actual_total)];
                durations2 = durations1[k - 1 := max 1 (durations1 ! (k - 1))]
            in Inr durations2)
       else Inr durations) = Inr ds"
    unfolding calculate_block_durations_def by (auto simp: bindE_Inr_iff)
  from durations_loop_shape [OF loop] have
    len: "length durations = nat n" and pos: "\<forall>d \<in> set durations. 1 \<le> d"
    by auto
  show "length ds = nat n"
    using fin len by (auto simp: Let_def split: if_splits)
  show "\<forall>d \<in> set ds. 1 \<le> d"
  proof (cases "sum_list durations = total_blocks")
    case True
    with fin pos show ?thesis by (simp add: Let_def)
  next
    case False
    with fin have ne: "durations \<noteq> []" by (auto simp: Let_def split: if_splits)
    then obtain bl l where d: "durations = bl @ [l]" by (metis rev_exhaust)
    with fin False have "ds = bl @ [max 1 (l + (total_blocks - sum_list durations))]"
      by (simp add: Let_def nth_append)
    with pos d show ?thesis by auto
  qed
  show "last ds = max 1 (total_blocks - sum_list (butlast ds))" if "ds \<noteq> []"
  proof (cases "sum_list durations = total_blocks")
    case True
    with fin have eq: "ds = durations" by (simp add: Let_def)
    with that obtain bl l where d: "durations = bl @ [l]" by (metis rev_exhaust)
    with pos have "1 \<le> l" by simp
    with True d eq show ?thesis by simp
  next
    case False
    with fin have ne: "durations \<noteq> []" by (auto simp: Let_def split: if_splits)
    then obtain bl l where d: "durations = bl @ [l]" by (metis rev_exhaust)
    with fin False have "ds = bl @ [max 1 (l + (total_blocks - sum_list durations))]"
      by (simp add: Let_def nth_append)
    with d show ?thesis by simp
  qed
qed

lemma calculate_block_durations_sum:
  assumes "calculate_block_durations fo total_blocks n gf = Inr ds" and "0 < n"
  shows "sum_list ds = max total_blocks (sum_list (butlast ds) + 1)"
proof -
  from calculate_block_durations_shape(1) [OF assms(1)] assms(2) have "ds \<noteq> []" by auto
  with calculate_block_durations_shape(3) [OF assms(1)]
  have l: "last ds = max 1 (total_blocks - sum_list (butlast ds))" by simp
  have "sum_list ds = sum_list (butlast ds @ [last ds])"
    using \<open>ds \<noteq> []\<close> by simp
  also have "\<dots> = sum_list (butlast ds) + last ds" by simp
  finally show ?thesis using l by simp
qed

lemma total_supply_simps [simp]:
  "total_supply [] = 0"
  "total_supply (p # ps) = mps p * blockDelta p + total_supply ps"
  "total_supply (ps @ qs) = total_supply ps + total_supply qs"
  by (simp_all add: total_supply_def)

lemma total_blocks_of_simps [simp]:
  "total_blocks_of [] = 0"
  "total_blocks_of (p # ps) = blockDelta p + total_blocks_of ps"
  "total_blocks_of (ps @ qs) = total_blocks_of ps + total_blocks_of qs"
  by (simp_all add: total_blocks_of_def)

lemma segments_loop_shape:
  "segments_loop fo bfs ds cb ct sched = Inr (ct', sched') \<Longrightarrow>
     \<exists>new. sched' = sched @ new \<and> map blockDelta new = ds \<and> ct' = ct + total_supply new"
proof (induction ds arbitrary: cb ct sched)
  case Nil
  then show ?case by simp
next
  case (Cons d rest)
  from Cons.prems obtain m where
    rec: "segments_loop fo bfs rest (cb + d) (ct + m * d) (sched @ [\<lparr>mps = m, blockDelta = d\<rparr>])
            = Inr (ct', sched')"
    by (auto simp: bindE_Inr_iff Let_def)
  from Cons.IH [OF rec] obtain new where
    n: "sched' = (sched @ [\<lparr>mps = m, blockDelta = d\<rparr>]) @ new" "map blockDelta new = rest"
       "ct' = ct + m * d + total_supply new"
    by blast
  let ?new = "\<lparr>mps = m, blockDelta = d\<rparr> # new"
  show ?case
  proof (intro exI conjI)
    show "sched' = sched @ ?new" using n(1) by simp
    show "map blockDelta ?new = d # rest" using n(2) by simp
    show "ct' = ct + total_supply ?new" using n(3) by simp
  qed
qed

lemma generate_schedule_shape:
  assumes "generate_schedule fo ab pb = Inr s"
  shows "\<exists>ds new. calculate_block_durations fo (ab - 1) NUM_SEGMENTS (GROWTH_EXPONENT fo) = Inr ds
           \<and> map blockDelta new = ds
           \<and> s = (if 0 < pb then [\<lparr>mps = 0, blockDelta = pb\<rparr>] else []) @ new @ [\<lparr>mps = TOTAL_TARGET - total_supply new, blockDelta = 1\<rparr>]"
proof -
  from assms obtain ds ct sched where
    ds: "calculate_block_durations fo (ab - 1) NUM_SEGMENTS (GROWTH_EXPONENT fo) = Inr ds" and
    loop: "segments_loop fo (ab - 1) ds 0 0 ((if 0 < pb then [\<lparr>mps = 0, blockDelta = pb\<rparr>] else [])) = Inr (ct, sched)" and
    s: "s = sched @ [\<lparr>mps = TOTAL_TARGET - ct, blockDelta = 1\<rparr>]"
    unfolding generate_schedule_def
    by (auto simp: bindE_Inr_iff Let_def)
  from segments_loop_shape [OF loop] obtain new where
    "sched = (if 0 < pb then [\<lparr>mps = 0, blockDelta = pb\<rparr>] else []) @ new" "map blockDelta new = ds" "ct = 0 + total_supply new"
    by blast
  with ds s show ?thesis by auto
qed

lemma bindE_assoc: "bindE (bindE r k) h = bindE r (\<lambda>u. bindE (k u) h)"
  by (cases r) simp_all

lemma segments_loop_prefix:
  "segments_loop fo bfs ds cb ct (pre @ sched) =
     bindE (segments_loop fo bfs ds cb ct sched) (\<lambda>(ct', sched'). Inr (ct', pre @ sched'))"
proof (induction ds arbitrary: cb ct sched)
  case Nil
  then show ?case by simp
next
  case (Cons d rest)
  have step: "segments_loop fo bfs rest cb' ct' (pre @ sched @ [p]) =
      bindE (segments_loop fo bfs rest cb' ct' (sched @ [p])) (\<lambda>(ct', sched'). Inr (ct', pre @ sched'))"
    for cb' ct' p
    using Cons.IH [of cb' ct' "sched @ [p]"] by simp
  show ?case
    by (simp only: segments_loop.simps Let_def bindE_assoc append_assoc step)
qed

lemma generate_schedule_prebid:
  assumes "0 < pb"
  shows "generate_schedule fo ab pb =
     bindE (generate_schedule fo ab 0) (\<lambda>s. Inr (\<lparr>mps = 0, blockDelta = pb\<rparr> # s))"
proof -
  have "segments_loop fo (ab - 1) ds 0 0 [\<lparr>mps = 0, blockDelta = pb\<rparr>] =
     bindE (segments_loop fo (ab - 1) ds 0 0 [])
       (\<lambda>(ct', sched'). Inr (ct', [\<lparr>mps = 0, blockDelta = pb\<rparr>] @ sched'))" for ds
    using segments_loop_prefix [of fo "ab - 1" ds 0 0 "[\<lparr>mps = 0, blockDelta = pb\<rparr>]" "[]"]
    by simp
  then show ?thesis
    using assms unfolding generate_schedule_def
    by (simp add: Let_def bindE_assoc split_def)
qed

subsection \<open>The schedule in terms of the planned durations\<close>


subsection \<open>Validation and the tool handler\<close>

lemma GenerateScheduleInput_Some:
  "GenerateScheduleInput ab (Some pb) =
     (if ab < 1 \<or> pb < 0 then Inl ValidationError else Inr (ab, pb))"
  by (auto simp: GenerateScheduleInput_def)

lemma generate_schedule_one_block:
  "\<exists>e. generate_schedule fo 1 pb = Inl e \<and>
     ((\<exists>ds. calculate_block_durations fo 0 NUM_SEGMENTS (GROWTH_EXPONENT fo) = Inr ds)
        \<longrightarrow> e = ZeroDivisionError)"
proof (cases "calculate_block_durations fo 0 NUM_SEGMENTS (GROWTH_EXPONENT fo)")
  case (Inl e)
  then show ?thesis by (simp add: generate_schedule_def)
next
  case (Inr ds)
  from calculate_block_durations_shape(1) [OF Inr] have "length ds = 10"
    by (simp add: NUM_SEGMENTS_def)
  then obtain d rest where "ds = d # rest" by (cases ds) auto
  with Inr have "generate_schedule fo 1 pb = Inl ZeroDivisionError"
    by (simp add: generate_schedule_def Let_def int_truediv_def)
  then show ?thesis by simp
qed

lemma tool_body_Inr:
  assumes "tool_body fo ab (Some pb) = Inr out"
  shows "1 \<le> ab \<and> 0 \<le> pb \<and> generate_schedule fo ab pb = Inr (schedule_out out)"
proof -
  from assms have v: "\<not> (ab < 1 \<or> pb < 0)"
    by (auto simp: tool_body_def GenerateScheduleInput_Some split: if_splits)
  with assms obtain s where s: "generate_schedule fo ab pb = Inr s"
    and rest: "(let total = total_supply s in
       if s = [] then Inl IndexError
       else
         let final = mps (last s) in
         bindE (int_truediv fo final TOTAL_TARGET) (\<lambda>share.
         bindE (float_mul_int fo share 100) (\<lambda>percentage.
         bindE (round_ndigits_f fo percentage 2) (\<lambda>shown.
           Inr \<lparr>schedule_out = s,
                auction_blocks_out = ab,
                prebid_blocks_out = pb,
                total_phases = length s,
                summary_out = \<lparr>total_mps = total, target_mps = TOTAL_TARGET,
                                final_block_mps = final,
                                final_block_percentage = shown,
                                num_segments = NUM_SEGMENTS,
                                growth_exponent = GROWTH_EXPONENT fo\<rparr>\<rparr>)))) = Inr out"
    by (auto simp: tool_body_def GenerateScheduleInput_Some bindE_Inr_iff)
  from rest have "schedule_out out = s"
    by (auto simp: Let_def bindE_Inr_iff split: if_splits)
  with v s show ?thesis by simp
qed

subsection \<open>The execution relation\<close>










section \<open>Rounding on binary64 is monotone\<close>

text \<open>
  The rounding of the model against the value of a double: \<open>shift_round\<close> and
  \<open>significand\<close> round to the nearest integer, ties to even; the rounded value grows
  with the value rounded; and so does the integer that \<open>round\<close> returns for the
  rounded product with a factor that is not negative.
\<close>

subsection \<open>Bit length and the nearest integer\<close>

lemma bit_length_pos: "0 < a \<Longrightarrow> 0 < bit_length a"
  by (subst bit_length.simps) simp

lemma bit_length_bounds:
  "0 < a \<Longrightarrow> 2 ^ (bit_length a - 1) \<le> a \<and> a < 2 ^ bit_length a"
proof (induction a rule: bit_length.induct)
  case (1 n)
  show ?case
  proof (cases "n div 2 = 0")
    case True
    with 1(2) have "n = 1" by presburger
    then show ?thesis
      by (simp add: bit_length.simps [of 1] bit_length.simps [of 0])
  next
    case False
    with 1(2) have pos: "0 < n div 2" by presburger
    from 1(1) 1(2) pos have IH: "2 ^ (bit_length (n div 2) - 1) \<le> n div 2"
      "n div 2 < 2 ^ bit_length (n div 2)" by auto
    have bl: "bit_length n = Suc (bit_length (n div 2))"
      using 1(2) by (subst bit_length.simps) simp
    from bit_length_pos [OF pos] obtain k where k: "bit_length (n div 2) = Suc k"
      by (cases "bit_length (n div 2)") auto
    from IH have "2 * 2 ^ (bit_length (n div 2) - 1) \<le> n" by presburger
    moreover from IH have "n < 2 * 2 ^ bit_length (n div 2)" by presburger
    ultimately show ?thesis by (simp add: bl k)
  qed
qed

lemma bit_length_le_iff:
  assumes "0 \<le> a"
  shows "bit_length a \<le> k \<longleftrightarrow> a < 2 ^ k"
proof (cases "a = 0")
  case True
  then show ?thesis by (simp add: bit_length.simps [of 0])
next
  case False
  with assms have pos: "0 < a" by simp
  note b = bit_length_bounds [OF pos]
  show ?thesis
  proof
    assume "bit_length a \<le> k"
    then have "(2::int) ^ bit_length a \<le> 2 ^ k" by (simp add: power_increasing)
    with b show "a < 2 ^ k" by linarith
  next
    assume "a < 2 ^ k"
    with b have "(2::int) ^ (bit_length a - 1) < 2 ^ k" by linarith
    then have "bit_length a - 1 < k" by (simp add: power_strict_increasing_iff)
    then show "bit_length a \<le> k" by linarith
  qed
qed

lemma rne_of_int [simp]: "rne (of_int n) = n"
  by (simp add: rne_def)

lemma rne_bounds: "\<lfloor>x\<rfloor> \<le> rne x" "rne x \<le> \<lfloor>x\<rfloor> + 1"
  by (simp_all add: rne_def Let_def)

lemma rne_mono:
  assumes "x \<le> y"
  shows "rne x \<le> rne y"
proof (cases "\<lfloor>x\<rfloor> = \<lfloor>y\<rfloor>")
  case True
  with assms have "x - of_int \<lfloor>x\<rfloor> \<le> y - of_int \<lfloor>y\<rfloor>" by simp
  with True show ?thesis
    by (auto simp: rne_def Let_def)
next
  case False
  with assms have "\<lfloor>x\<rfloor> < \<lfloor>y\<rfloor>"
    by (simp add: floor_mono order.not_eq_order_implies_strict)
  with rne_bounds [of x] rne_bounds [of y] show ?thesis by linarith
qed

lemma rne_le_int: "x \<le> of_int n \<Longrightarrow> rne x \<le> n"
  using rne_mono [of x "of_int n"] by simp

lemma rne_ge_int: "of_int n \<le> x \<Longrightarrow> n \<le> rne x"
  using rne_mono [of "of_int n" x] by simp

lemma shift_round_rne:
  assumes "0 \<le> a"
  shows "shift_round a k = rne (of_int a / 2 ^ k)"
proof -
  define q where "q = a div 2 ^ k"
  define r where "r = a mod 2 ^ k"
  have a: "a = q * 2 ^ k + r" unfolding q_def r_def by (rule div_mult_mod_eq [symmetric])
  have r: "0 \<le> r" "r < 2 ^ k" by (simp_all add: r_def)
  have fl: "\<lfloor>(of_int a :: rat) / 2 ^ k\<rfloor> = q"
    unfolding q_def using floor_divide_of_int_eq [of a "2 ^ k", where ?'a = rat] by simp
  have fr: "(of_int a :: rat) / 2 ^ k - of_int q = of_int r / 2 ^ k"
    by (simp add: a field_simps)
  have gt: "(of_int r :: rat) / 2 ^ k > 1 / 2 \<longleftrightarrow> 2 * r > 2 ^ k"
  proof -
    have "(of_int r :: rat) / 2 ^ k > 1 / 2 \<longleftrightarrow> (of_int (2 * r) :: rat) > of_int (2 ^ k)"
      by (simp add: field_simps)
    also have "\<dots> \<longleftrightarrow> 2 * r > 2 ^ k" by (simp only: of_int_less_iff)
    finally show ?thesis .
  qed
  have eq: "(of_int r :: rat) / 2 ^ k = 1 / 2 \<longleftrightarrow> 2 * r = 2 ^ k"
  proof -
    have "(of_int r :: rat) / 2 ^ k = 1 / 2 \<longleftrightarrow> (of_int (2 * r) :: rat) = of_int (2 ^ k)"
      by (auto simp: field_simps)
    also have "\<dots> \<longleftrightarrow> 2 * r = 2 ^ k" by (simp only: of_int_eq_iff)
    finally show ?thesis .
  qed
  show ?thesis
    unfolding shift_round_def rne_def Let_def fl fr gt eq
    by (simp add: q_def r_def)
qed

subsection \<open>The rounded value\<close>

lemma two_powi_nat: "0 \<le> k \<Longrightarrow> (2::rat) powi k = of_int (2 ^ nat k)"
  by (simp add: power_int_def)

lemma two_powi_add: "(2::rat) powi (i + j) = 2 powi i * 2 powi j"
  by (rule power_int_add) simp

lemma two_powi_pos [simp]: "0 < (2::rat) powi i"
  by simp

lemma two_powi_le: "i \<le> j \<Longrightarrow> (2::rat) powi i \<le> 2 powi j"
  by (rule power_int_increasing) simp_all

lemma two_powi_less_imp: "(2::rat) powi i < 2 powi j \<Longrightarrow> i < j"
  using two_powi_le [of j i] by (cases "i < j") auto

lemma valof_split: "valof m e = valof m (e - t) * 2 powi t"
  unfolding valof_def using two_powi_add [of "e - t" t] by simp

lemma valof_shift: "valof m (e - t) = valof m e * 2 powi (- t)"
  unfolding valof_def using two_powi_add [of e "- t"] by simp

lemma valof_nonneg_exp: "0 \<le> e \<Longrightarrow> valof m e = of_int (m * 2 ^ nat e)"
  by (simp add: valof_def power_int_def)

lemma valof_neg_exp: "e \<le> 0 \<Longrightarrow> valof m e = of_int m / 2 ^ nat (- e)"
  by (cases "e = 0") (simp_all add: valof_def power_int_def field_simps)

lemma valof_mono_mantissa: "m \<le> m' \<Longrightarrow> valof m e \<le> valof m' e"
  by (simp add: valof_def mult_right_mono)

lemma valof_bounds:
  assumes "0 < a"
  shows "2 powi (int (bit_length a) + e - 1) \<le> valof a e"
    and "valof a e < 2 powi (int (bit_length a) + e)"
proof -
  let ?n = "bit_length a"
  from bit_length_bounds [OF assms] have lo: "2 ^ (?n - 1) \<le> a" and hi: "a < 2 ^ ?n" by auto
  from bit_length_pos [OF assms] have n: "int ?n + e - 1 = int (?n - 1) + e" by linarith
  have "(2::rat) powi (int ?n + e - 1) = 2 powi (int (?n - 1)) * 2 powi e"
    unfolding n by (rule two_powi_add)
  also have "\<dots> = of_int (2 ^ (?n - 1)) * 2 powi e" by simp
  also have "\<dots> \<le> of_int a * 2 powi e"
    using lo by (intro mult_right_mono) (simp_all only: of_int_le_iff two_powi_pos less_imp_le)
  finally show "2 powi (int ?n + e - 1) \<le> valof a e" by (simp add: valof_def)
  have "of_int a * 2 powi e < (of_int (2 ^ ?n) :: rat) * 2 powi e"
    using hi by (intro mult_strict_right_mono) (simp_all only: of_int_less_iff two_powi_pos)
  also have "\<dots> = 2 powi (int ?n + e)"
    using two_powi_add [of "int ?n" e] by simp
  finally show "valof a e < 2 powi (int ?n + e)" by (simp add: valof_def)
qed

lemma significand_rne:
  assumes "0 \<le> a"
  shows "significand a e = rne (valof a (e - ulp_exponent a e))"
proof (cases "ulp_exponent a e \<le> e")
  case True
  then have "valof a (e - ulp_exponent a e) = of_int (a * 2 ^ nat (e - ulp_exponent a e))"
    by (intro valof_nonneg_exp) simp
  with True show ?thesis by (simp only: significand_def Let_def if_True rne_of_int)
next
  case False
  then have "valof a (e - ulp_exponent a e) = of_int a / 2 ^ nat (- (e - ulp_exponent a e))"
    by (intro valof_neg_exp) simp
  with False shift_round_rne [OF assms, of "nat (ulp_exponent a e - e)"] show ?thesis
    by (simp add: significand_def)
qed

lemma significand_nonneg: "0 \<le> a \<Longrightarrow> 0 \<le> significand a e"
  using rne_ge_int [of 0 "valof a (e - ulp_exponent a e)"]
  by (simp add: significand_rne valof_def)

lemma rounded_value_mono:
  assumes a: "0 < a" and a': "0 < a'" and le: "valof a e \<le> valof a' e'"
  shows "valof (significand a e) (ulp_exponent a e)
       \<le> valof (significand a' e') (ulp_exponent a' e')"
proof -
  define L where "L = int (bit_length a) + e - 1"
  define L' where "L' = int (bit_length a') + e' - 1"
  define t where "t = ulp_exponent a e"
  define t' where "t' = ulp_exponent a' e'"
  define q where "q = significand a e"
  define q' where "q' = significand a' e'"
  have t: "t = max (L - 52) (- 1074)" and t': "t' = max (L' - 52) (- 1074)"
    by (simp_all add: t_def t'_def L_def L'_def ulp_exponent_def)
  have lo: "2 powi L \<le> valof a e" and hi: "valof a e < 2 powi (L + 1)"
    using valof_bounds [OF a, of e] by (simp_all add: L_def)
  have lo': "2 powi L' \<le> valof a' e'" and hi': "valof a' e' < 2 powi (L' + 1)"
    using valof_bounds [OF a', of e'] by (simp_all add: L'_def)
  have q: "q = rne (valof a e * 2 powi (- t))"
    unfolding q_def t_def using significand_rne [of a e] a by (simp add: valof_shift)
  have q': "q' = rne (valof a' e' * 2 powi (- t'))"
    unfolding q'_def t'_def using significand_rne [of a' e'] a' by (simp add: valof_shift)
  from lo le hi' have "(2::rat) powi L < 2 powi (L' + 1)" by linarith
  then have LL: "L \<le> L'" using two_powi_less_imp [of L "L' + 1"] by simp
  then have tt: "t \<le> t'" by (simp add: t t')
  show ?thesis
    unfolding q_def [symmetric] q'_def [symmetric] t_def [symmetric] t'_def [symmetric]
  proof (cases "t = t'")
    case True
    have "valof a e * 2 powi (- t) \<le> valof a' e' * 2 powi (- t)"
      using le by (intro mult_right_mono) simp_all
    then have "q \<le> q'" unfolding q q' True [symmetric] by (rule rne_mono)
    then show "valof q t \<le> valof q' t'"
      unfolding True [symmetric] by (rule valof_mono_mantissa)
  next
    case False
    with tt have less: "t < t'" by simp
    with t t' have t'_eq: "t' = L' - 52" and t_ge: "L - 52 \<le> t" by auto
    from less t'_eq t_ge have L1: "L + 1 \<le> L'" by simp
    from less t'_eq have d: "0 \<le> L' - t" by simp
    have "valof a e * 2 powi (- t) \<le> 2 powi L' * 2 powi (- t)"
    proof (intro mult_right_mono)
      from hi two_powi_le [OF L1] show "valof a e \<le> 2 powi L'" by linarith
    qed simp
    also have "\<dots> = 2 powi (L' - t)" using two_powi_add [of L' "- t"] by simp
    also have "\<dots> = of_int (2 ^ nat (L' - t))" using d by (rule two_powi_nat)
    finally have "q \<le> 2 ^ nat (L' - t)" unfolding q by (rule rne_le_int)
    then have "valof q t \<le> valof (2 ^ nat (L' - t)) t" by (rule valof_mono_mantissa)
    also have "\<dots> = 2 powi (L' - t) * 2 powi t"
      using two_powi_nat [OF d] by (simp add: valof_def)
    also have "\<dots> = 2 powi L'" using two_powi_add [of "L' - t" t] by simp
    finally have upper: "valof q t \<le> 2 powi L'" .
    have "(of_int (2 ^ 52) :: rat) = 2 powi (L' - t')"
      using two_powi_nat [of "L' - t'"] t'_eq by simp
    also have "\<dots> = 2 powi L' * 2 powi (- t')" using two_powi_add [of L' "- t'"] by simp
    also have "\<dots> \<le> valof a' e' * 2 powi (- t')"
      using lo' by (intro mult_right_mono) simp_all
    finally have "2 ^ 52 \<le> q'" unfolding q' by (rule rne_ge_int)
    then have "valof (2 ^ 52) t' \<le> valof q' t'" by (rule valof_mono_mantissa)
    moreover have "valof (2 ^ 52) t' = 2 powi L'"
      using two_powi_add [of 52 t'] t'_eq by (simp add: valof_def)
    ultimately show "valof q t \<le> valof q' t'" using upper by linarith
  qed
qed

lemma ulp_exponent_mono:
  assumes a: "0 < a" and a': "0 < a'" and le: "valof a e \<le> valof a' e'"
  shows "ulp_exponent a e \<le> ulp_exponent a' e'"
proof -
  have "2 powi (int (bit_length a) + e - 1) \<le> valof a e"
    using valof_bounds(1) [OF a] .
  also note le
  also have "valof a' e' < 2 powi (int (bit_length a') + e')"
    using valof_bounds(2) [OF a'] .
  finally have "int (bit_length a) + e - 1 < int (bit_length a') + e'"
    by (rule two_powi_less_imp)
  then show ?thesis by (simp add: ulp_exponent_def)
qed

lemma round_binary64_pos:
  assumes "0 < m"
  shows "round_binary64 m e =
     (if int (bit_length (significand m e)) + ulp_exponent m e > 1024 then PInf
      else Fin (significand m e) (ulp_exponent m e))"
  using assms by (simp add: round_binary64_def Let_def)

lemma round_binary64_nonneg_cases:
  assumes "0 \<le> m"
  shows "round_binary64 m e = PInf \<or> (\<exists>q t. round_binary64 m e = Fin q t \<and> 0 \<le> q)"
proof (cases "m = 0")
  case True
  then show ?thesis by (simp add: round_binary64_def)
next
  case False
  with assms have "0 < m" by simp
  then show ?thesis
    using significand_nonneg [of m e] by (simp add: round_binary64_pos)
qed

lemma finite_iff_below_overflow:
  assumes "0 \<le> q"
  shows "int (bit_length q) + t \<le> 1024 \<longleftrightarrow> t \<le> 1024 \<and> valof q t < 2 powi 1024"
proof (cases "t \<le> 1024")
  case False
  then show ?thesis by simp
next
  case True
  have "int (bit_length q) + t \<le> 1024 \<longleftrightarrow> bit_length q \<le> nat (1024 - t)"
    using True by linarith
  also have "\<dots> \<longleftrightarrow> q < 2 ^ nat (1024 - t)"
    by (rule bit_length_le_iff [OF assms])
  also have "\<dots> \<longleftrightarrow> (of_int q :: rat) < of_int (2 ^ nat (1024 - t))"
    by (simp only: of_int_less_iff)
  also have "\<dots> \<longleftrightarrow> (of_int q :: rat) < 2 powi (1024 - t)"
    using two_powi_nat [of "1024 - t"] True by simp
  also have "\<dots> \<longleftrightarrow> of_int q * 2 powi t < (2::rat) powi (1024 - t) * 2 powi t"
    by (simp only: mult_less_cancel_right_pos [OF two_powi_pos])
  also have "(2::rat) powi (1024 - t) * 2 powi t = 2 powi 1024"
    using two_powi_add [of "1024 - t" t] by simp
  finally show ?thesis using True by (simp add: valof_def)
qed

lemma round_binary64_mono:
  assumes m: "0 \<le> m" and m': "0 \<le> m'"
    and le: "valof m e \<le> valof m' e'"
    and fin: "round_binary64 m' e' = Fin M' E'"
  shows "\<exists>M E. round_binary64 m e = Fin M E \<and> 0 \<le> M \<and> valof M E \<le> valof M' E'"
proof (cases "m = 0")
  case True
  from round_binary64_nonneg_cases [OF m', of e'] fin have "0 \<le> M'" by simp
  then have "valof 0 0 \<le> valof M' E'" by (simp add: valof_def)
  with True show ?thesis by (simp add: round_binary64_def)
next
  case False
  with m have pos: "0 < m" by simp
  then have "0 < valof m e" by (simp add: valof_def)
  with le have "0 < valof m' e'" by linarith
  have pos': "0 < m'"
  proof (rule ccontr)
    assume "\<not> 0 < m'"
    with m' have "m' = 0" by simp
    then have "valof m' e' = 0" by (simp add: valof_def)
    with \<open>0 < valof m' e'\<close> show False by simp
  qed
  let ?q = "significand m e" and ?t = "ulp_exponent m e"
  let ?q' = "significand m' e'" and ?t' = "ulp_exponent m' e'"
  have q: "0 \<le> ?q" and q': "0 \<le> ?q'"
    using pos pos' by (simp_all add: significand_nonneg)
  from fin have f': "int (bit_length ?q') + ?t' \<le> 1024" and M': "M' = ?q'" "E' = ?t'"
    by (simp_all add: round_binary64_pos [OF pos'] split: if_splits)
  from f' have b': "?t' \<le> 1024" "valof ?q' ?t' < 2 powi 1024"
    using finite_iff_below_overflow [OF q', of ?t'] by simp_all
  note v = rounded_value_mono [OF pos pos' le]
  have "?t \<le> 1024" using ulp_exponent_mono [OF pos pos' le] b'(1) by linarith
  moreover have "valof ?q ?t < 2 powi 1024" using v b'(2) by linarith
  ultimately have "int (bit_length ?q) + ?t \<le> 1024"
    using finite_iff_below_overflow [OF q, of ?t] by simp
  then have "round_binary64 m e = Fin ?q ?t"
    by (simp add: round_binary64_pos [OF pos])
  with q v M' show ?thesis by simp
qed

lemma nearest_int_rne:
  assumes "0 \<le> m"
  shows "nearest_int m e 0 = rne (valof m e)"
proof (cases "0 \<le> e")
  case True
  then have "valof m e = of_int (m * 2 ^ nat e)" by (rule valof_nonneg_exp)
  with True assms show ?thesis
    by (simp only: nearest_int_def Let_def power_0 mult_1_right abs_of_nonneg if_True rne_of_int)
next
  case False
  then have "valof m e = of_int m / 2 ^ nat (- e)" by (intro valof_neg_exp) simp
  with False assms shift_round_rne [OF assms, of "nat (- e)"] show ?thesis
    by (simp add: nearest_int_def)
qed

lemma valof_mult: "valof (m * a) (e + x) = valof m e * valof a x"
  by (simp add: valof_def two_powi_add)

text \<open>The rounded product with a non-negative factor is monotone in the other factor.\<close>

lemma round_mul_mono:
  assumes bm: "0 \<le> bm" and a: "0 \<le> a" and a': "0 \<le> a'"
    and le: "valof a x \<le> valof a' x'"
    and r': "b64_round (b64_mul (Fin bm be) (Fin a' x')) = Inr r'"
  shows "\<exists>r. b64_round (b64_mul (Fin bm be) (Fin a x)) = Inr r \<and> r \<le> r'"
proof -
  from r' obtain M' E' where fin: "round_binary64 (bm * a') (be + x') = Fin M' E'"
    and r'_eq: "r' = nearest_int M' E' 0"
    by (cases "round_binary64 (bm * a') (be + x')") auto
  have "0 \<le> valof bm be" using bm by (simp add: valof_def)
  then have "valof (bm * a) (be + x) \<le> valof (bm * a') (be + x')"
    unfolding valof_mult using le by (rule mult_left_mono [rotated])
  from round_binary64_mono [OF _ _ this fin] bm a a' obtain M E where
    ME: "round_binary64 (bm * a) (be + x) = Fin M E" "0 \<le> M" "valof M E \<le> valof M' E'"
    by auto
  from round_binary64_nonneg_cases [of "bm * a'" "be + x'"] fin bm a' have "0 \<le> M'" by simp
  with ME(2,3) have "nearest_int M E 0 \<le> nearest_int M' E' 0"
    by (simp add: nearest_int_rne rne_mono)
  with ME(1) r'_eq show ?thesis by simp
qed

subsection \<open>The planner on binary64\<close>

text \<open>
  With the growth factor 1.2 and ten segments, the geometric sum and the ten powers
  \<open>1.2 ** i\<close> are constants; they are evaluated once. The durations before the
  residual correction are then sorted, for every block budget that is not negative.
\<close>

lemma durations_loop_elems:
  "durations_loop fo b0 gf idx acc = Inr ds \<Longrightarrow>
     \<exists>new. ds = acc @ new \<and> length new = length idx \<and>
       (\<forall>k < length idx. \<exists>p r. float_pow_int fo gf (idx ! k) = Inr p
          \<and> round_f fo (mul_f fo b0 p) = Inr r \<and> new ! k = max 1 r)"
proof (induction idx arbitrary: acc)
  case Nil
  then show ?case by simp
next
  case (Cons i rest)
  from Cons.prems obtain p r where
    p: "float_pow_int fo gf i = Inr p" and r: "round_f fo (mul_f fo b0 p) = Inr r" and
    rec: "durations_loop fo b0 gf rest (acc @ [max 1 r]) = Inr ds"
    by (auto simp: bindE_Inr_iff Let_def)
  from Cons.IH [OF rec] obtain new where
    new: "ds = (acc @ [max 1 r]) @ new" "length new = length rest"
      "\<forall>k < length rest. \<exists>p r. float_pow_int fo gf (rest ! k) = Inr p
          \<and> round_f fo (mul_f fo b0 p) = Inr r \<and> new ! k = max 1 r"
    by (elim exE conjE)
  let ?new = "max 1 r # new"
  have "\<exists>p' r'. float_pow_int fo gf ((i # rest) ! k) = Inr p'
          \<and> round_f fo (mul_f fo b0 p') = Inr r' \<and> ?new ! k = max 1 r'"
    if "k < length (i # rest)" for k
  proof (cases k)
    case 0
    with p r show ?thesis by simp
  next
    case (Suc j)
    with that have "j < length rest" by simp
    with new(3) Suc show ?thesis by simp
  qed
  then have "ds = acc @ ?new \<and> length ?new = length (i # rest) \<and>
       (\<forall>k < length (i # rest). \<exists>p r. float_pow_int fo gf ((i # rest) ! k) = Inr p
          \<and> round_f fo (mul_f fo b0 p) = Inr r \<and> ?new ! k = max 1 r)"
    using new(1,2) by simp
  then show ?case by (rule exI)
qed

lemma range_10: "[0..(10::int) - 1] = [0, 1, 2, 3, 4, 5, 6, 7, 8, 9]"
  by code_simp

lemma geometric_sum_binary64:
  "bindE (float_pow_int binary64_ops (GROWTH_EXPONENT binary64_ops) 10) (\<lambda>p.
   bindE (float_sub_int binary64_ops p 1) (\<lambda>numer.
   bindE (float_sub_int binary64_ops (GROWTH_EXPONENT binary64_ops) 1) (\<lambda>denom.
     float_truediv binary64_ops numer denom))) = Inr (Fin 7306719442914520 (- 48))"
  by code_simp

lemma growth_powers_binary64:
  "map (float_pow_int binary64_ops (GROWTH_EXPONENT binary64_ops)) [0, 1, 2, 3, 4, 5, 6, 7, 8, 9]
     = map (\<lambda>(a, x). Inr (Fin a x))
         [(1, 0), (5404319552844595, - 52), (6485183463413514, - 52),
      (7782220156096216, - 52), (4669332093657730, - 51), (5603198512389275, - 51),
      (6723838214867130, - 51), (8068605857840556, - 51), (4841163514704333, - 50),
      (5809396217645200, - 50)]"
  by code_simp

lemma growth_powers_sorted:
  "sorted (map (\<lambda>(a, x). valof a x)
     ([(1, 0), (5404319552844595, - 52), (6485183463413514, - 52),
      (7782220156096216, - 52), (4669332093657730, - 51), (5603198512389275, - 51),
      (6723838214867130, - 51), (8068605857840556, - 51), (4841163514704333, - 50),
      (5809396217645200, - 50)] :: (int \<times> int) list))"
  by (simp add: valof_def)

lemma int_div_float_nonneg:
  assumes tb: "0 \<le> tb" and G: "0 < G"
    and b0: "int_div_float binary64_ops tb (Fin G g) = Inr b0"
  shows "b0 = PInf \<or> (\<exists>bm be. b0 = Fin bm be \<and> 0 \<le> bm)"
proof -
  from b0 obtain x where x: "b64_of_int tb = Inr x"
    and d: "float_truediv binary64_ops x (Fin G g) = Inr b0"
    by (auto simp: int_div_float_def binary64_ops_def bindE_Inr_iff)
  from round_binary64_nonneg_cases [OF tb, of 0] x obtain m e where
    m: "x = Fin m e" "0 \<le> m"
    by (auto simp: b64_of_int_def)
  from d G m have b0_eq: "b0 = div_round m e G g"
    by (simp add: float_truediv_def binary64_ops_def)
  define qs where "qs = 2 * ((\<bar>m\<bar> * 2 ^ nat (55 + int (bit_length \<bar>G\<bar>) - int (bit_length \<bar>m\<bar>))) div \<bar>G\<bar>)
      + (if (\<bar>m\<bar> * 2 ^ nat (55 + int (bit_length \<bar>G\<bar>) - int (bit_length \<bar>m\<bar>))) mod \<bar>G\<bar> = 0 then 0 else 1)"
  have "0 \<le> (\<bar>m\<bar> * 2 ^ nat (55 + int (bit_length \<bar>G\<bar>) - int (bit_length \<bar>m\<bar>))) div \<bar>G\<bar>"
    using G by (intro pos_imp_zdiv_nonneg_iff [THEN iffD2]) simp_all
  then have qs: "0 \<le> qs" by (simp add: qs_def)
  have "b0 = round_binary64 qs
      (e - g - int (nat (55 + int (bit_length \<bar>G\<bar>) - int (bit_length \<bar>m\<bar>))) - 1)"
    unfolding b0_eq div_round_def Let_def qs_def using m(2) G by simp
  with round_binary64_nonneg_cases [OF qs] show ?thesis by metis
qed

lemma planner_binary64:
  "calculate_block_durations binary64_ops total_blocks 10 (GROWTH_EXPONENT binary64_ops) =
     bindE (int_div_float binary64_ops total_blocks (Fin 7306719442914520 (- 48))) (\<lambda>b0.
     bindE (durations_loop binary64_ops b0 (GROWTH_EXPONENT binary64_ops)
              [0, 1, 2, 3, 4, 5, 6, 7, 8, 9] []) (\<lambda>durations.
       let actual_total = sum_list durations in
       if actual_total \<noteq> total_blocks then
         (if durations = [] then Inl IndexError
          else
            let n = length durations;
                durations1 = durations[n - 1 := durations ! (n - 1) + (total_blocks - actual_total)];
                durations2 = durations1[n - 1 := max 1 (durations1 ! (n - 1))]
            in Inr durations2)
       else Inr durations))"
proof -
  have "bindE (bindE (float_pow_int binary64_ops (GROWTH_EXPONENT binary64_ops) 10) (\<lambda>p.
          bindE (float_sub_int binary64_ops p 1) (\<lambda>numer.
          bindE (float_sub_int binary64_ops (GROWTH_EXPONENT binary64_ops) 1) (\<lambda>denom.
            float_truediv binary64_ops numer denom)))) k
      = k (Fin 7306719442914520 (- 48))" for k :: "binary64 \<Rightarrow> exn + int list"
    by (simp only: geometric_sum_binary64 bindE_Inr)
  then show ?thesis
    unfolding calculate_block_durations_def range_10 by (simp only: bindE_assoc)
qed

lemma planner_loop_sorted:
  assumes tb: "0 \<le> tb"
    and b0: "int_div_float binary64_ops tb (Fin 7306719442914520 (- 48)) = Inr b0"
    and loop: "durations_loop binary64_ops b0 (GROWTH_EXPONENT binary64_ops)
                 [0, 1, 2, 3, 4, 5, 6, 7, 8, 9] [] = Inr ds"
  shows "sorted ds"
proof -
  let ?tbl = "[(1, 0), (5404319552844595, - 52), (6485183463413514, - 52),
      (7782220156096216, - 52), (4669332093657730, - 51), (5603198512389275, - 51),
      (6723838214867130, - 51), (8068605857840556, - 51), (4841163514704333, - 50),
      (5809396217645200, - 50)] :: (int \<times> int) list"
  let ?idx = "[0, 1, 2, 3, 4, 5, 6, 7, 8, 9] :: int list"
  have powers: "map (float_pow_int binary64_ops (GROWTH_EXPONENT binary64_ops)) ?idx
      = map (\<lambda>(a, x). Inr (Fin a x)) ?tbl"
    by (rule growth_powers_binary64)
  have tbl_sorted: "sorted (map (\<lambda>(a, x). valof a x) ?tbl)"
    by (rule growth_powers_sorted)
  have tbl_pos: "\<forall>(a, x) \<in> set ?tbl. 0 \<le> a"
    by simp
  have pow_k: "float_pow_int binary64_ops (GROWTH_EXPONENT binary64_ops) (?idx ! k)
      = Inr (Fin (fst (?tbl ! k)) (snd (?tbl ! k)))" if "k < 10" for k
  proof -
    have "map (float_pow_int binary64_ops (GROWTH_EXPONENT binary64_ops)) ?idx ! k
        = map (\<lambda>(a, x). Inr (Fin a x)) ?tbl ! k"
      by (simp only: powers)
    moreover have "k < length ?idx" "k < length ?tbl" using that by simp_all
    ultimately show ?thesis by (simp only: nth_map split_def)
  qed
  have val_k: "valof (fst (?tbl ! i)) (snd (?tbl ! i)) \<le> valof (fst (?tbl ! j)) (snd (?tbl ! j))"
    if "i \<le> j" "j < 10" for i j
  proof -
    from that have "map (\<lambda>(a, x). valof a x) ?tbl ! i \<le> map (\<lambda>(a, x). valof a x) ?tbl ! j"
      by (intro sorted_nth_mono [OF tbl_sorted]) simp_all
    moreover have "i < length ?tbl" "j < length ?tbl" using that by simp_all
    ultimately show ?thesis by (simp only: nth_map split_def)
  qed
  have pos_k: "0 \<le> fst (?tbl ! k)" if "k < 10" for k
  proof -
    from that have "?tbl ! k \<in> set ?tbl" by (intro nth_mem) simp
    with tbl_pos show ?thesis by (auto simp only: split_def)
  qed
  from durations_loop_elems [OF loop] have len: "length ds = 10"
    and elems: "\<And>k. k < 10 \<Longrightarrow> \<exists>p r.
        float_pow_int binary64_ops (GROWTH_EXPONENT binary64_ops) (?idx ! k) = Inr p
        \<and> round_f binary64_ops (mul_f binary64_ops b0 p) = Inr r \<and> ds ! k = max 1 r"
    by auto
  have elem: "\<exists>r. b64_round (b64_mul b0 (Fin (fst (?tbl ! k)) (snd (?tbl ! k)))) = Inr r
      \<and> ds ! k = max 1 r" if "k < 10" for k
    using elems [OF that] pow_k [OF that] by (auto simp: binary64_ops_def)
  from int_div_float_nonneg [OF tb _ b0] consider "b0 = PInf"
    | bm be where "b0 = Fin bm be" "0 \<le> bm"
    by auto
  then show ?thesis
  proof cases
    case 1
    from elem [of 0] 1 show ?thesis by simp
  next
    case 2
    have "ds ! i \<le> ds ! j" if ij: "i \<le> j" and j: "j < length ds" for i j
    proof -
      from j len have j10: "j < 10" by simp
      with ij have i10: "i < 10" by simp
      from elem [OF j10] obtain rj where
        rj: "b64_round (b64_mul b0 (Fin (fst (?tbl ! j)) (snd (?tbl ! j)))) = Inr rj"
          "ds ! j = max 1 rj" by blast
      from elem [OF i10] obtain ri where
        ri: "b64_round (b64_mul b0 (Fin (fst (?tbl ! i)) (snd (?tbl ! i)))) = Inr ri"
          "ds ! i = max 1 ri" by blast
      from round_mul_mono [OF 2(2) pos_k [OF i10] pos_k [OF j10] val_k [OF ij j10]
          rj(1) [unfolded 2(1)]] ri(1) [unfolded 2(1)]
      have "ri \<le> rj" by auto
      with ri(2) rj(2) show ?thesis by simp
    qed
    then show ?thesis by (simp add: sorted_iff_nth_mono)
  qed
qed


section \<open>Concrete requests, evaluated on binary64\<close>

text \<open>
  The requests of the repository's tests (86400 blocks, with and without a prebid period of
  43200 blocks) and the shortest auctions, evaluated in the logic. The planner and the
  segment loop are evaluated first; the schedules follow from them.
\<close>

lemma growth_exponent_binary64:
  "GROWTH_EXPONENT binary64_ops = Fin 5404319552844595 (- 52)"
  by code_simp

lemma durations_0:
  "calculate_block_durations binary64_ops 0 10 (GROWTH_EXPONENT binary64_ops) =
     Inr [1, 1, 1, 1, 1, 1, 1, 1, 1, 1]"
  by code_simp

lemma durations_1:
  "calculate_block_durations binary64_ops 1 10 (GROWTH_EXPONENT binary64_ops) =
     Inr [1, 1, 1, 1, 1, 1, 1, 1, 1, 1]"
  by code_simp

lemma durations_11:
  "calculate_block_durations binary64_ops 11 10 (GROWTH_EXPONENT binary64_ops) =
     Inr [1, 1, 1, 1, 1, 1, 1, 2, 2, 1]"
  by code_simp

lemma durations_86399:
  "calculate_block_durations binary64_ops 86399 10 (GROWTH_EXPONENT binary64_ops) =
     Inr [3328, 3994, 4793, 5751, 6902, 8282, 9938, 11926, 14311, 17174]"
  by code_simp

lemma segments_1:
  "segments_loop binary64_ops 1 [1, 1, 1, 1, 1, 1, 1, 1, 1, 1] 0 0 [] = Inr (110942524,
     [\<lparr>mps = 7000000, blockDelta = 1\<rparr>, \<lparr>mps = 9081777, blockDelta = 1\<rparr>,
      \<lparr>mps = 10078573, blockDelta = 1\<rparr>, \<lparr>mps = 10785872, blockDelta = 1\<rparr>,
      \<lparr>mps = 11344317, blockDelta = 1\<rparr>, \<lparr>mps = 11810163, blockDelta = 1\<rparr>,
      \<lparr>mps = 12212184, blockDelta = 1\<rparr>, \<lparr>mps = 12567243, blockDelta = 1\<rparr>,
      \<lparr>mps = 12886143, blockDelta = 1\<rparr>, \<lparr>mps = 13176252, blockDelta = 1\<rparr>])"
  by code_simp

lemma segments_86399:
  "segments_loop binary64_ops 86399
     [3328, 3994, 4793, 5751, 6902, 8282, 9938, 11926, 14311, 17174] 0 0 [] = Inr (6988624,
     [\<lparr>mps = 42, blockDelta = 3328\<rparr>, \<lparr>mps = 55, blockDelta = 3994\<rparr>,
      \<lparr>mps = 63, blockDelta = 4793\<rparr>, \<lparr>mps = 68, blockDelta = 5751\<rparr>,
      \<lparr>mps = 73, blockDelta = 6902\<rparr>, \<lparr>mps = 78, blockDelta = 8282\<rparr>,
      \<lparr>mps = 82, blockDelta = 9938\<rparr>, \<lparr>mps = 87, blockDelta = 11926\<rparr>,
      \<lparr>mps = 91, blockDelta = 14311\<rparr>, \<lparr>mps = 95, blockDelta = 17174\<rparr>])"
  by code_simp

lemma share_86400:
  "int_truediv binary64_ops 3011376 TOTAL_TARGET = Inr (Fin 5424812732588982 (- 54))"
  by code_simp

lemma percentage_86400:
  "float_mul_int binary64_ops (Fin 5424812732588982 (- 54)) 100 = Inr (Fin 8476269894670284 (- 48))"
  by code_simp

lemma shown_86400:
  "round_ndigits_f binary64_ops (Fin 8476269894670284 (- 48)) 2 = Inr (Fin 8475211548757852 (- 48))"
  by code_simp

lemma generate_schedule_1_0:
  "generate_schedule binary64_ops 1 0 = Inl ZeroDivisionError"
  by (simp add: generate_schedule_def NUM_SEGMENTS_def durations_0 int_truediv_def)

lemma generate_schedule_2_0:
  "generate_schedule binary64_ops 2 0 = Inr
     [\<lparr>mps = 7000000, blockDelta = 1\<rparr>, \<lparr>mps = 9081777, blockDelta = 1\<rparr>,
      \<lparr>mps = 10078573, blockDelta = 1\<rparr>, \<lparr>mps = 10785872, blockDelta = 1\<rparr>,
      \<lparr>mps = 11344317, blockDelta = 1\<rparr>, \<lparr>mps = 11810163, blockDelta = 1\<rparr>,
      \<lparr>mps = 12212184, blockDelta = 1\<rparr>, \<lparr>mps = 12567243, blockDelta = 1\<rparr>,
      \<lparr>mps = 12886143, blockDelta = 1\<rparr>, \<lparr>mps = 13176252, blockDelta = 1\<rparr>,
      \<lparr>mps = - 100942524, blockDelta = 1\<rparr>]"
  by (simp add: generate_schedule_def NUM_SEGMENTS_def durations_1 segments_1 TOTAL_TARGET_def
      del: segments_loop.simps)

lemma generate_schedule_86400_0:
  "generate_schedule binary64_ops 86400 0 = Inr
     [\<lparr>mps = 42, blockDelta = 3328\<rparr>, \<lparr>mps = 55, blockDelta = 3994\<rparr>,
      \<lparr>mps = 63, blockDelta = 4793\<rparr>, \<lparr>mps = 68, blockDelta = 5751\<rparr>,
      \<lparr>mps = 73, blockDelta = 6902\<rparr>, \<lparr>mps = 78, blockDelta = 8282\<rparr>,
      \<lparr>mps = 82, blockDelta = 9938\<rparr>, \<lparr>mps = 87, blockDelta = 11926\<rparr>,
      \<lparr>mps = 91, blockDelta = 14311\<rparr>, \<lparr>mps = 95, blockDelta = 17174\<rparr>,
      \<lparr>mps = 3011376, blockDelta = 1\<rparr>]"
  by (simp add: generate_schedule_def NUM_SEGMENTS_def durations_86399 segments_86399
      TOTAL_TARGET_def del: segments_loop.simps)

lemma durations_14399:
  "calculate_block_durations binary64_ops 14399 10 (GROWTH_EXPONENT binary64_ops) =
     Inr [555, 666, 799, 959, 1150, 1380, 1656, 1988, 2385, 2861]"
  by code_simp

lemma segments_14399:
  "segments_loop binary64_ops 14399
     [555, 666, 799, 959, 1150, 1380, 1656, 1988, 2385, 2861] 0 0 [] = Inr (7001065,
     [\<lparr>mps = 253, blockDelta = 555\<rparr>, \<lparr>mps = 333, blockDelta = 666\<rparr>,
      \<lparr>mps = 376, blockDelta = 799\<rparr>, \<lparr>mps = 411, blockDelta = 959\<rparr>,
      \<lparr>mps = 441, blockDelta = 1150\<rparr>, \<lparr>mps = 468, blockDelta = 1380\<rparr>,
      \<lparr>mps = 495, blockDelta = 1656\<rparr>, \<lparr>mps = 521, blockDelta = 1988\<rparr>,
      \<lparr>mps = 546, blockDelta = 2385\<rparr>, \<lparr>mps = 571, blockDelta = 2861\<rparr>])"
  by code_simp

lemma generate_schedule_14400_0:
  "generate_schedule binary64_ops 14400 0 = Inr
     [\<lparr>mps = 253, blockDelta = 555\<rparr>, \<lparr>mps = 333, blockDelta = 666\<rparr>,
      \<lparr>mps = 376, blockDelta = 799\<rparr>, \<lparr>mps = 411, blockDelta = 959\<rparr>,
      \<lparr>mps = 441, blockDelta = 1150\<rparr>, \<lparr>mps = 468, blockDelta = 1380\<rparr>,
      \<lparr>mps = 495, blockDelta = 1656\<rparr>, \<lparr>mps = 521, blockDelta = 1988\<rparr>,
      \<lparr>mps = 546, blockDelta = 2385\<rparr>, \<lparr>mps = 571, blockDelta = 2861\<rparr>,
      \<lparr>mps = 2998935, blockDelta = 1\<rparr>]"
  by (simp add: generate_schedule_def NUM_SEGMENTS_def durations_14399 segments_14399
      TOTAL_TARGET_def del: segments_loop.simps)

lemma durations_43199:
  "calculate_block_durations binary64_ops 43199 10 (GROWTH_EXPONENT binary64_ops) =
     Inr [1664, 1997, 2396, 2876, 3451, 4141, 4969, 5963, 7156, 8586]"
  by code_simp

lemma segments_43199:
  "segments_loop binary64_ops 43199
     [1664, 1997, 2396, 2876, 3451, 4141, 4969, 5963, 7156, 8586] 0 0 [] = Inr (6993464,
     [\<lparr>mps = 84, blockDelta = 1664\<rparr>, \<lparr>mps = 111, blockDelta = 1997\<rparr>,
      \<lparr>mps = 125, blockDelta = 2396\<rparr>, \<lparr>mps = 137, blockDelta = 2876\<rparr>,
      \<lparr>mps = 147, blockDelta = 3451\<rparr>, \<lparr>mps = 156, blockDelta = 4141\<rparr>,
      \<lparr>mps = 165, blockDelta = 4969\<rparr>, \<lparr>mps = 173, blockDelta = 5963\<rparr>,
      \<lparr>mps = 182, blockDelta = 7156\<rparr>, \<lparr>mps = 190, blockDelta = 8586\<rparr>])"
  by code_simp

lemma generate_schedule_43200_0:
  "generate_schedule binary64_ops 43200 0 = Inr
     [\<lparr>mps = 84, blockDelta = 1664\<rparr>, \<lparr>mps = 111, blockDelta = 1997\<rparr>,
      \<lparr>mps = 125, blockDelta = 2396\<rparr>, \<lparr>mps = 137, blockDelta = 2876\<rparr>,
      \<lparr>mps = 147, blockDelta = 3451\<rparr>, \<lparr>mps = 156, blockDelta = 4141\<rparr>,
      \<lparr>mps = 165, blockDelta = 4969\<rparr>, \<lparr>mps = 173, blockDelta = 5963\<rparr>,
      \<lparr>mps = 182, blockDelta = 7156\<rparr>, \<lparr>mps = 190, blockDelta = 8586\<rparr>,
      \<lparr>mps = 3006536, blockDelta = 1\<rparr>]"
  by (simp add: generate_schedule_def NUM_SEGMENTS_def durations_43199 segments_43199
      TOTAL_TARGET_def del: segments_loop.simps)

lemma durations_604799:
  "calculate_block_durations binary64_ops 604799 10 (GROWTH_EXPONENT binary64_ops) =
     Inr [23299, 27958, 33550, 40260, 48312, 57974, 69569, 83483, 100179, 120215]"
  by code_simp

lemma segments_604799:
  "segments_loop binary64_ops 604799
     [23299, 27958, 33550, 40260, 48312, 57974, 69569, 83483, 100179, 120215] 0 0 [] = Inr (7010803,
     [\<lparr>mps = 6, blockDelta = 23299\<rparr>, \<lparr>mps = 8, blockDelta = 27958\<rparr>,
      \<lparr>mps = 9, blockDelta = 33550\<rparr>, \<lparr>mps = 10, blockDelta = 40260\<rparr>,
      \<lparr>mps = 10, blockDelta = 48312\<rparr>, \<lparr>mps = 11, blockDelta = 57974\<rparr>,
      \<lparr>mps = 12, blockDelta = 69569\<rparr>, \<lparr>mps = 12, blockDelta = 83483\<rparr>,
      \<lparr>mps = 13, blockDelta = 100179\<rparr>, \<lparr>mps = 14, blockDelta = 120215\<rparr>])"
  by code_simp

lemma generate_schedule_604800_0:
  "generate_schedule binary64_ops 604800 0 = Inr
     [\<lparr>mps = 6, blockDelta = 23299\<rparr>, \<lparr>mps = 8, blockDelta = 27958\<rparr>,
      \<lparr>mps = 9, blockDelta = 33550\<rparr>, \<lparr>mps = 10, blockDelta = 40260\<rparr>,
      \<lparr>mps = 10, blockDelta = 48312\<rparr>, \<lparr>mps = 11, blockDelta = 57974\<rparr>,
      \<lparr>mps = 12, blockDelta = 69569\<rparr>, \<lparr>mps = 12, blockDelta = 83483\<rparr>,
      \<lparr>mps = 13, blockDelta = 100179\<rparr>, \<lparr>mps = 14, blockDelta = 120215\<rparr>,
      \<lparr>mps = 2989197, blockDelta = 1\<rparr>]"
  by (simp add: generate_schedule_def NUM_SEGMENTS_def durations_604799 segments_604799
      TOTAL_TARGET_def del: segments_loop.simps)

lemma generate_schedule_86400_43200:
  "generate_schedule binary64_ops 86400 43200 = Inr
     [\<lparr>mps = 0, blockDelta = 43200\<rparr>,
      \<lparr>mps = 42, blockDelta = 3328\<rparr>, \<lparr>mps = 55, blockDelta = 3994\<rparr>,
      \<lparr>mps = 63, blockDelta = 4793\<rparr>, \<lparr>mps = 68, blockDelta = 5751\<rparr>,
      \<lparr>mps = 73, blockDelta = 6902\<rparr>, \<lparr>mps = 78, blockDelta = 8282\<rparr>,
      \<lparr>mps = 82, blockDelta = 9938\<rparr>, \<lparr>mps = 87, blockDelta = 11926\<rparr>,
      \<lparr>mps = 91, blockDelta = 14311\<rparr>, \<lparr>mps = 95, blockDelta = 17174\<rparr>,
      \<lparr>mps = 3011376, blockDelta = 1\<rparr>]"
  by (simp add: generate_schedule_prebid generate_schedule_86400_0)

lemma tool_body_86400:
  "tool_body binary64_ops 86400 (Some 0) = Inr
     \<lparr>schedule_out =
        [\<lparr>mps = 42, blockDelta = 3328\<rparr>, \<lparr>mps = 55, blockDelta = 3994\<rparr>,
         \<lparr>mps = 63, blockDelta = 4793\<rparr>, \<lparr>mps = 68, blockDelta = 5751\<rparr>,
         \<lparr>mps = 73, blockDelta = 6902\<rparr>, \<lparr>mps = 78, blockDelta = 8282\<rparr>,
         \<lparr>mps = 82, blockDelta = 9938\<rparr>, \<lparr>mps = 87, blockDelta = 11926\<rparr>,
         \<lparr>mps = 91, blockDelta = 14311\<rparr>, \<lparr>mps = 95, blockDelta = 17174\<rparr>,
         \<lparr>mps = 3011376, blockDelta = 1\<rparr>],
      auction_blocks_out = 86400, prebid_blocks_out = 0, total_phases = 11,
      summary_out = \<lparr>total_mps = 10000000, target_mps = TOTAL_TARGET,
                      final_block_mps = 3011376,
                      final_block_percentage = Fin 8475211548757852 (- 48),
                         num_segments = NUM_SEGMENTS,
                         growth_exponent = GROWTH_EXPONENT binary64_ops\<rparr>\<rparr>"
  by (simp add: tool_body_def GenerateScheduleInput_def generate_schedule_86400_0
      share_86400 percentage_86400 shown_86400 total_supply_def)

section \<open>Rounding error on binary64, and the last planned duration\<close>

text \<open>
  A correctly rounded result differs from the exact one by at most half a unit in the
  last place. With the bound, the first nine durations of a budget of at least 152 blocks
  leave room for a tenth that is not smaller than the ninth; the smaller budgets are
  evaluated one by one.
\<close>

lemma rne_error: "\<bar>of_int (rne x) - x\<bar> \<le> 1 / 2"
proof -
  have "of_int \<lfloor>x\<rfloor> \<le> x" "x < of_int \<lfloor>x\<rfloor> + 1" by linarith+
  then show ?thesis by (auto simp: rne_def Let_def)
qed

lemma valof_neg [simp]: "valof (- m) e = - valof m e"
  by (simp add: valof_def)

lemma valof_zero [simp]: "valof 0 e = 0"
  by (simp add: valof_def)

lemma two_powi_not_neg [simp]: "\<not> (2::rat) powi e < 0"
  using two_powi_pos [of e] by (simp only: not_less less_imp_le)

lemma two_powi_not_nonpos [simp]: "\<not> (2::rat) powi e \<le> 0"
  using two_powi_pos [of e] by (simp only: not_le)

lemma valof_pos_iff [simp]: "0 < valof m e \<longleftrightarrow> 0 < m"
  by (simp add: valof_def zero_less_mult_iff)

lemma valof_nonneg_iff [simp]: "0 \<le> valof m e \<longleftrightarrow> 0 \<le> m"
  by (simp add: valof_def zero_le_mult_iff)

lemma valof_abs: "\<bar>valof m e\<bar> = valof \<bar>m\<bar> e"
  by (simp add: valof_def abs_mult)

lemma valof_div: "valof a e1 / valof b e2 = of_int a / of_int b * 2 powi (e1 - e2)"
  by (simp add: valof_def power_int_diff)

lemma nearest_int_error: "\<bar>of_int (nearest_int m e 0) - valof m e\<bar> \<le> 1 / 2"
proof (cases "0 \<le> m")
  case True
  then show ?thesis using rne_error [of "valof m e"] by (simp add: nearest_int_rne)
next
  case False
  then have n: "0 \<le> - m" by simp
  have "nearest_int m e 0 = - nearest_int (- m) e 0"
    using False by (simp add: nearest_int_def Let_def)
  then show ?thesis
    using rne_error [of "valof (- m) e"]
    by (simp add: nearest_int_rne [OF n] abs_if split: if_splits)
qed

lemma significand_error:
  assumes m: "0 < m"
  shows "\<bar>valof (significand m e) (ulp_exponent m e) - valof m e\<bar>
           \<le> 2 powi (ulp_exponent m e - 1)"
proof -
  define t where "t = ulp_exponent m e"
  define y where "y = valof m e * 2 powi (- t)"
  have q: "significand m e = rne y"
    unfolding y_def t_def using significand_rne [of m e] m by (simp add: valof_shift)
  have X: "valof m e = y * 2 powi t"
    unfolding y_def using two_powi_add [of "- t" t] by simp
  have "valof (rne y) t - valof m e = (of_int (rne y) - y) * 2 powi t"
    unfolding X by (simp add: valof_def algebra_simps)
  then have "\<bar>valof (rne y) t - valof m e\<bar> = \<bar>of_int (rne y) - y\<bar> * 2 powi t"
    by (simp add: abs_mult)
  also have "\<dots> \<le> (1 / 2) * 2 powi t"
    using rne_error [of y] by (intro mult_right_mono) simp_all
  also have "\<dots> = 2 powi (t - 1)"
    using two_powi_add [of t "- 1"] by simp
  finally show ?thesis unfolding q t_def .
qed

lemma round_binary64_rel:
  assumes m: "0 < m" and lo: "2 powi (- 1022) \<le> valof m e"
    and r: "round_binary64 m e = Fin q t"
  shows "\<bar>valof q t - valof m e\<bar> \<le> valof m e * 2 powi (- 53)"
proof -
  from r have qt: "q = significand m e" "t = ulp_exponent m e"
    by (simp_all add: round_binary64_pos [OF m] split: if_splits)
  define L where "L = int (bit_length m) + e - 1"
  have lo': "2 powi L \<le> valof m e" and hi': "valof m e < 2 powi (L + 1)"
    using valof_bounds [OF m, of e] by (simp_all add: L_def)
  from lo hi' have "(2::rat) powi (- 1022) < 2 powi (L + 1)" by linarith
  then have "- 1022 < L + 1" by (rule two_powi_less_imp)
  then have t: "t = L - 52" by (simp add: qt ulp_exponent_def L_def)
  have "\<bar>valof q t - valof m e\<bar> \<le> 2 powi (t - 1)"
    unfolding qt by (rule significand_error [OF m])
  also have "\<dots> = 2 powi L * 2 powi (- 53)"
    unfolding t using two_powi_add [of L "- 53"] by simp
  also have "\<dots> \<le> valof m e * 2 powi (- 53)"
    using lo' by (intro mult_right_mono) simp_all
  finally show ?thesis .
qed

lemma div_round_rel:
  assumes m1: "0 < m1" and m2: "0 < m2"
    and lo: "2 powi (- 1021) \<le> valof m1 e1 / valof m2 e2"
    and res: "div_round m1 e1 m2 e2 = Fin Q T"
  shows "\<bar>valof Q T - valof m1 e1 / valof m2 e2\<bar> \<le> valof m1 e1 / valof m2 e2 * 2 powi (- 52)"
proof -
  define sh where "sh = nat (55 + int (bit_length m2) - int (bit_length m1))"
  define q where "q = (m1 * 2 ^ sh) div m2"
  define r where "r = (m1 * 2 ^ sh) mod m2"
  define qs where "qs = 2 * q + (if r = 0 then 0 else 1)"
  define E where "E = e1 - e2 - int sh"
  define X where "X = valof m1 e1 / valof m2 e2"
  define Y where "Y = valof qs (E - 1)"
  have dr: "div_round m1 e1 m2 e2 = round_binary64 qs (E - 1)"
    using m1 m2 by (simp add: div_round_def Let_def sh_def q_def r_def qs_def E_def)
  have r: "0 \<le> r" "r < m2" using m2 by (simp_all add: r_def)
  have N: "m1 * 2 ^ sh = q * m2 + r"
    unfolding q_def r_def by (rule div_mult_mod_eq [symmetric])
  have B: "(0::rat) < of_int m2" using m2 by simp
  have "(of_int (m1 * 2 ^ sh) :: rat) / of_int m2 = of_int q + of_int r / of_int m2"
    unfolding N using B by (simp add: field_simps)
  then have quo: "(of_int m1 * 2 ^ sh :: rat) / of_int m2 = of_int q + of_int r / of_int m2"
    by simp
  have e12: "(2::rat) powi (e1 - e2) = 2 ^ sh * 2 powi E"
    using two_powi_add [of "int sh" E] by (simp add: E_def)
  have X: "X = (of_int q + of_int r / of_int m2) * 2 powi E"
    unfolding X_def valof_div e12 quo [symmetric] by simp
  have Y: "Y = (of_int qs / 2) * 2 powi E"
    unfolding Y_def valof_def using two_powi_add [of E "- 1"] by simp
  have half: "\<bar>of_int qs / 2 - (of_int q + of_int r / of_int m2)\<bar> \<le> (1 / 2 :: rat)"
  proof (cases "r = 0")
    case True
    then show ?thesis by (simp add: qs_def)
  next
    case False
    with r have "0 < r" by simp
    define rho :: rat where "rho = of_int r / of_int m2"
    have "0 < rho" unfolding rho_def using \<open>0 < r\<close> B by simp
    moreover have "rho < 1" unfolding rho_def using r B by simp
    moreover have "(of_int qs :: rat) / 2 = of_int q + 1 / 2"
      using False by (simp add: qs_def field_simps)
    then have "of_int qs / 2 - (of_int q + rho) = 1 / 2 - rho" by linarith
    ultimately have "\<bar>of_int qs / 2 - (of_int q + rho)\<bar> \<le> 1 / 2" by linarith
    then show ?thesis unfolding rho_def .
  qed
  have "Y - X = (of_int qs / 2 - (of_int q + of_int r / of_int m2)) * 2 powi E"
    unfolding X Y by (simp add: algebra_simps)
  then have "\<bar>Y - X\<bar> = \<bar>of_int qs / 2 - (of_int q + of_int r / of_int m2)\<bar> * 2 powi E"
    by (simp add: abs_mult)
  also have "\<dots> \<le> (1 / 2) * 2 powi E"
    using half by (intro mult_right_mono) simp_all
  finally have YX: "\<bar>Y - X\<bar> \<le> (1 / 2) * 2 powi E" .
  have "m2 < 2 ^ bit_length m2" using bit_length_bounds [of m2] m2 by simp
  then have "m2 * 2 ^ 54 \<le> 2 ^ bit_length m2 * 2 ^ 54" by simp
  also have "\<dots> = 2 ^ (bit_length m2 + 54)" by (simp add: power_add)
  also have "\<dots> \<le> 2 ^ ((bit_length m1 - 1) + sh)"
    using bit_length_pos [OF m1] by (intro power_increasing) (simp_all add: sh_def)
  also have "\<dots> = 2 ^ (bit_length m1 - 1) * 2 ^ sh"
    by (simp add: power_add)
  also have "\<dots> \<le> m1 * 2 ^ sh" using bit_length_bounds [OF m1] by simp
  finally have "m2 * 2 ^ 54 \<le> m1 * 2 ^ sh" .
  then have "(of_int (m2 * 2 ^ 54) :: rat) \<le> of_int (m1 * 2 ^ sh)"
    by (simp only: of_int_le_iff)
  then have "(2 ^ 54 :: rat) \<le> of_int m1 * 2 ^ sh / of_int m2"
    using B by (simp add: field_simps)
  then have big: "(2 ^ 54 :: rat) \<le> of_int q + of_int r / of_int m2"
    unfolding quo .
  have "2 ^ 54 * 2 powi E \<le> X"
    unfolding X using big by (intro mult_right_mono) simp_all
  then have E54: "(1 / 2) * 2 powi E \<le> X * 2 powi (- 55)"
    by (simp add: power_int_minus field_simps)
  have Xpos: "0 < X" unfolding X_def using m1 m2 by simp
  have p55: "(2::rat) powi (- 55) \<le> 1 / 2" by (simp add: power_int_minus field_simps)
  have XY: "\<bar>Y - X\<bar> \<le> X * 2 powi (- 55)" using YX E54 by linarith
  have "X * 2 powi (- 55) \<le> X * (1 / 2)" using Xpos p55 by (intro mult_left_mono) simp_all
  with XY have Yhalf: "X / 2 \<le> Y" by linarith
  have "(2::rat) powi (- 1022) = 2 powi (- 1021) / 2"
    using two_powi_add [of "- 1021" "- 1"] by simp
  moreover have "2 powi (- 1021) \<le> X" using lo by (simp only: X_def)
  ultimately have Ylo: "2 powi (- 1022) \<le> Y" using Yhalf by linarith
  with Xpos have Ypos: "0 < Y" using two_powi_pos [of "- 1022"] by linarith
  then have qsp: "0 < qs" by (simp add: Y_def)
  from res dr have rr: "round_binary64 qs (E - 1) = Fin Q T" by simp
  from round_binary64_rel [OF qsp Ylo [unfolded Y_def] rr]
  have QY: "\<bar>valof Q T - Y\<bar> \<le> Y * 2 powi (- 53)" by (simp add: Y_def)
  have Yup: "Y \<le> X + X * 2 powi (- 55)" using XY by linarith
  have "Y * 2 powi (- 53) \<le> (X + X * 2 powi (- 55)) * 2 powi (- 53)"
    using Yup by (intro mult_right_mono) simp_all
  with QY XY have "\<bar>valof Q T - X\<bar>
      \<le> X * 2 powi (- 55) + (X + X * 2 powi (- 55)) * 2 powi (- 53)"
    by linarith
  also have "\<dots> = X * (2 powi (- 55) + 2 powi (- 53) + 2 powi (- 55) * 2 powi (- 53))"
    by (simp add: algebra_simps)
  also have "\<dots> \<le> X * 2 powi (- 52)"
    using Xpos by (intro mult_left_mono) (simp_all add: power_int_minus)
  finally show ?thesis unfolding X_def .
qed

lemma b64_of_int_rel:
  assumes tb: "1 \<le> tb" and x: "b64_of_int tb = Inr x"
  shows "\<exists>m e. x = Fin m e \<and> 0 < m \<and> \<bar>valof m e - of_int tb\<bar> \<le> of_int tb * 2 powi (- 53)"
proof -
  from x obtain m e where r: "round_binary64 tb 0 = Fin m e" and xm: "x = Fin m e"
    by (cases "round_binary64 tb 0") (auto simp: b64_of_int_def)
  have pos: "0 < tb" using tb by simp
  have v: "valof tb 0 = of_int tb" by (simp add: valof_def)
  have "(2::rat) powi (- 1022) \<le> 1" by (simp add: power_int_minus field_simps)
  also have "(1::rat) \<le> of_int tb" using tb by simp
  finally have lo: "2 powi (- 1022) \<le> valof tb 0" unfolding v .
  from round_binary64_rel [OF pos lo r]
  have err: "\<bar>valof m e - of_int tb\<bar> \<le> of_int tb * 2 powi (- 53)" unfolding v .
  have "(of_int tb :: rat) * 2 powi (- 53) \<le> of_int tb * (1 / 2)"
    using tb by (intro mult_left_mono) (simp_all add: power_int_minus field_simps)
  with err have "of_int tb / 2 \<le> valof m e" by linarith
  moreover have "(0::rat) < of_int tb / 2" using pos by simp
  ultimately have "0 < valof m e" by linarith
  then have "0 < m" by simp
  with xm err show ?thesis by blast
qed

lemma planner_unit_rel:
  assumes tb: "152 \<le> tb"
    and b0: "int_div_float binary64_ops tb (Fin 7306719442914520 (- 48)) = Inr (Fin bm be)"
  shows "0 < bm"
    and "5 \<le> valof bm be"
    and "valof bm be \<le> of_int tb / valof 7306719442914520 (- 48)
           * ((1 + 2 powi (- 53)) * (1 + 2 powi (- 52)))"
proof -
  define VS where "VS = valof 7306719442914520 (- 48)"
  have VS: "25 \<le> VS" "VS \<le> 26"
    by (simp_all add: VS_def valof_def power_int_minus field_simps)
  from b0 obtain x where x: "b64_of_int tb = Inr x"
    and d: "float_truediv binary64_ops x (Fin 7306719442914520 (- 48)) = Inr (Fin bm be)"
    by (auto simp: int_div_float_def binary64_ops_def bindE_Inr_iff)
  from tb have tb1: "1 \<le> tb" by simp
  from b64_of_int_rel [OF tb1 x] obtain m e where
    xm: "x = Fin m e" and m: "0 < m"
    and xe: "\<bar>valof m e - of_int tb\<bar> \<le> of_int tb * 2 powi (- 53)"
    by blast
  from d xm have dr: "div_round m e 7306719442914520 (- 48) = Fin bm be"
    by (simp add: float_truediv_def binary64_ops_def)
  define T :: rat where "T = of_int tb"
  define u :: rat where "u = 2 powi (- 53)"
  define X where "X = valof m e / VS"
  have T: "152 \<le> T" using tb by (simp add: T_def)
  have u: "0 < u" "u \<le> 1 / 100" by (simp_all add: u_def power_int_minus field_simps)
  have Tu: "0 \<le> T * u" using T u by simp
  have "T * u \<le> T * (1 / 100)" using T u by (intro mult_left_mono) simp_all
  with xe have vlo: "T * (99 / 100) \<le> valof m e" and vhi: "valof m e \<le> T * (1 + u)"
    unfolding T_def [symmetric] u_def [symmetric] by (simp_all add: algebra_simps abs_le_iff)
  have VSpos: "0 < VS" using VS by simp
  have "152 * (99 / 100) / 26 \<le> T * (99 / 100) / VS"
    using T VS by (intro frac_le mult_right_mono) simp_all
  also have "\<dots> \<le> X" unfolding X_def using vlo VSpos by (intro divide_right_mono) simp_all
  finally have Xlo: "57 / 10 \<le> X" by simp
  have "(2::rat) powi (- 1021) \<le> 1" by (simp add: power_int_minus field_simps)
  with Xlo have lo: "2 powi (- 1021) \<le> valof m e / valof 7306719442914520 (- 48)"
    unfolding X_def VS_def by linarith
  from div_round_rel [OF m _ lo dr]
  have be: "\<bar>valof bm be - X\<bar> \<le> X * 2 powi (- 52)" by (simp add: X_def VS_def)
  have p52: "(2::rat) powi (- 52) \<le> 1 / 100" by (simp add: power_int_minus field_simps)
  have Xpos: "0 < X" using Xlo by simp
  have "X * 2 powi (- 52) \<le> X * (1 / 100)" using Xpos p52 by (intro mult_left_mono) simp_all
  with be Xlo show "5 \<le> valof bm be" by linarith
  then have "0 < valof bm be" by linarith
  then show "0 < bm" by (simp only: valof_pos_iff)
  from be have "valof bm be \<le> X + X * 2 powi (- 52)" by linarith
  then have "valof bm be \<le> X * (1 + 2 powi (- 52))" by (simp only: distrib_left mult_1_right)
  also have "X \<le> T * (1 + u) / VS"
    unfolding X_def using vhi VSpos by (intro divide_right_mono) simp_all
  finally show "valof bm be \<le> of_int tb / valof 7306719442914520 (- 48)
           * ((1 + 2 powi (- 53)) * (1 + 2 powi (- 52)))"
    by (simp add: T_def u_def VS_def)
qed

lemma planner_product_upper:
  assumes bm: "0 < bm" and b5: "5 \<le> valof bm be"
    and a: "0 < a" and a1: "1 \<le> valof a x"
    and r: "b64_round (b64_mul (Fin bm be) (Fin a x)) = Inr r"
  shows "of_int r \<le> valof bm be * valof a x * (1 + 2 powi (- 53)) + 1 / 2"
proof -
  from r obtain M E where mul: "round_binary64 (bm * a) (be + x) = Fin M E"
    and r_eq: "r = nearest_int M E 0"
    by (cases "round_binary64 (bm * a) (be + x)") auto
  have pos: "0 < bm * a" using bm a by simp
  define P where "P = valof bm be * valof a x"
  have v: "valof (bm * a) (be + x) = P" by (simp add: valof_mult P_def)
  have "5 * 1 \<le> P" unfolding P_def using b5 a1 bm by (intro mult_mono) simp_all
  moreover have "(2::rat) powi (- 1022) \<le> 1" by (simp add: power_int_minus field_simps)
  ultimately have lo: "2 powi (- 1022) \<le> valof (bm * a) (be + x)" unfolding v by linarith
  from round_binary64_rel [OF pos lo mul]
  have "valof M E \<le> P + P * 2 powi (- 53)" unfolding v by linarith
  then have "valof M E \<le> P * (1 + 2 powi (- 53))" by (simp only: distrib_left mult_1_right)
  moreover have "of_int r \<le> valof M E + 1 / 2"
    using nearest_int_error [of M E] unfolding r_eq by linarith
  ultimately show ?thesis unfolding P_def by linarith
qed

lemma planner_elem_upper:
  assumes tb: "152 \<le> tb"
    and b0: "int_div_float binary64_ops tb (Fin 7306719442914520 (- 48)) = Inr (Fin bm be)"
    and a: "0 < a" and a1: "1 \<le> valof a x"
    and r: "b64_round (b64_mul (Fin bm be) (Fin a x)) = Inr r"
    and c: "valof a x / valof 7306719442914520 (- 48)
              * ((1 + 2 powi (- 53)) * (1 + 2 powi (- 52)) * (1 + 2 powi (- 53))) \<le> c"
  shows "of_int (max 1 r) \<le> of_int tb * c + 1 / 2"
proof -
  define VS where "VS = valof 7306719442914520 (- 48)"
  define g where "g = valof a x"
  define T :: rat where "T = of_int tb"
  define k1 :: rat where "k1 = (1 + 2 powi (- 53)) * (1 + 2 powi (- 52))"
  define k2 :: rat where "k2 = 1 + 2 powi (- 53)"
  have VS: "25 \<le> VS" "VS \<le> 26"
    by (simp_all add: VS_def valof_def power_int_minus field_simps)
  have k: "1 \<le> k1" "1 \<le> k2" "0 \<le> k1" "0 \<le> k2"
    by (simp_all add: k1_def k2_def power_int_minus field_simps)
  have T: "152 \<le> T" using tb by (simp add: T_def)
  have g: "1 \<le> g" using a1 by (simp add: g_def)
  note unit = planner_unit_rel [OF tb b0]
  have vb: "valof bm be \<le> T / VS * k1"
    using unit(3) by (simp add: T_def VS_def k1_def)
  from planner_product_upper [OF unit(1,2) a a1 r]
  have "of_int r \<le> valof bm be * g * k2 + 1 / 2" by (simp add: g_def k2_def)
  also have "valof bm be * g * k2 \<le> (T / VS * k1) * g * k2"
    using vb g k by (intro mult_right_mono) simp_all
  also have "(T / VS * k1) * g * k2 = T * (g / VS * (k1 * k2))"
    by (simp add: field_simps)
  also have "\<dots> \<le> T * c"
    using c T by (intro mult_left_mono) (simp_all add: g_def VS_def k1_def k2_def)
  finally have up: "of_int r \<le> T * c + 1 / 2" by simp
  have "1 / 26 * (1 * 1) \<le> g / VS * (k1 * k2)"
    using g VS k by (intro mult_mono frac_le) simp_all
  also have "\<dots> \<le> c" using c by (simp add: g_def VS_def k1_def k2_def)
  finally have "1 / 26 \<le> c" by simp
  then have "152 * (1 / 26) \<le> T * c" using T by (intro mult_mono) simp_all
  then have "(1::rat) \<le> T * c + 1 / 2" by simp
  with up show ?thesis unfolding T_def by (simp add: max_def)
qed

lemma growth_power_values:
  "float_pow_int binary64_ops (GROWTH_EXPONENT binary64_ops) 0 = Inr (Fin 1 0)"
  "float_pow_int binary64_ops (GROWTH_EXPONENT binary64_ops) 1 = Inr (Fin 5404319552844595 (- 52))"
  "float_pow_int binary64_ops (GROWTH_EXPONENT binary64_ops) 2 = Inr (Fin 6485183463413514 (- 52))"
  "float_pow_int binary64_ops (GROWTH_EXPONENT binary64_ops) 3 = Inr (Fin 7782220156096216 (- 52))"
  "float_pow_int binary64_ops (GROWTH_EXPONENT binary64_ops) 4 = Inr (Fin 4669332093657730 (- 51))"
  "float_pow_int binary64_ops (GROWTH_EXPONENT binary64_ops) 5 = Inr (Fin 5603198512389275 (- 51))"
  "float_pow_int binary64_ops (GROWTH_EXPONENT binary64_ops) 6 = Inr (Fin 6723838214867130 (- 51))"
  "float_pow_int binary64_ops (GROWTH_EXPONENT binary64_ops) 7 = Inr (Fin 8068605857840556 (- 51))"
  "float_pow_int binary64_ops (GROWTH_EXPONENT binary64_ops) 8 = Inr (Fin 4841163514704333 (- 50))"
  "float_pow_int binary64_ops (GROWTH_EXPONENT binary64_ops) 9 = Inr (Fin 5809396217645200 (- 50))"
  using growth_powers_binary64 by simp_all

lemma durations_loop_binary64:
  assumes loop: "durations_loop binary64_ops b0 (GROWTH_EXPONENT binary64_ops)
                 [0, 1, 2, 3, 4, 5, 6, 7, 8, 9] [] = Inr ds"
  shows "\<exists>r0 r1 r2 r3 r4 r5 r6 r7 r8 r9.
      ds = [max 1 r0, max 1 r1, max 1 r2, max 1 r3, max 1 r4, max 1 r5, max 1 r6, max 1 r7,
            max 1 r8, max 1 r9]
    \<and> b64_round (b64_mul b0 (Fin 1 0)) = Inr r0
    \<and> b64_round (b64_mul b0 (Fin 5404319552844595 (- 52))) = Inr r1
    \<and> b64_round (b64_mul b0 (Fin 6485183463413514 (- 52))) = Inr r2
    \<and> b64_round (b64_mul b0 (Fin 7782220156096216 (- 52))) = Inr r3
    \<and> b64_round (b64_mul b0 (Fin 4669332093657730 (- 51))) = Inr r4
    \<and> b64_round (b64_mul b0 (Fin 5603198512389275 (- 51))) = Inr r5
    \<and> b64_round (b64_mul b0 (Fin 6723838214867130 (- 51))) = Inr r6
    \<and> b64_round (b64_mul b0 (Fin 8068605857840556 (- 51))) = Inr r7
    \<and> b64_round (b64_mul b0 (Fin 4841163514704333 (- 50))) = Inr r8
    \<and> b64_round (b64_mul b0 (Fin 5809396217645200 (- 50))) = Inr r9"
proof -
  have sel: "round_f binary64_ops = b64_round" "mul_f binary64_ops = b64_mul"
    by (simp_all add: binary64_ops_def)
  from loop obtain r0 r1 r2 r3 r4 r5 r6 r7 r8 r9 where
    "ds = [max 1 r0, max 1 r1, max 1 r2, max 1 r3, max 1 r4, max 1 r5, max 1 r6, max 1 r7,
            max 1 r8, max 1 r9]"
    "b64_round (b64_mul b0 (Fin 1 0)) = Inr r0"
    "b64_round (b64_mul b0 (Fin 5404319552844595 (- 52))) = Inr r1"
    "b64_round (b64_mul b0 (Fin 6485183463413514 (- 52))) = Inr r2"
    "b64_round (b64_mul b0 (Fin 7782220156096216 (- 52))) = Inr r3"
    "b64_round (b64_mul b0 (Fin 4669332093657730 (- 51))) = Inr r4"
    "b64_round (b64_mul b0 (Fin 5603198512389275 (- 51))) = Inr r5"
    "b64_round (b64_mul b0 (Fin 6723838214867130 (- 51))) = Inr r6"
    "b64_round (b64_mul b0 (Fin 8068605857840556 (- 51))) = Inr r7"
    "b64_round (b64_mul b0 (Fin 4841163514704333 (- 50))) = Inr r8"
    "b64_round (b64_mul b0 (Fin 5809396217645200 (- 50))) = Inr r9"
    by (auto simp: growth_power_values bindE_Inr_iff Let_def sel
          simp del: b64_mul.simps b64_round.simps)
  then show ?thesis by (intro exI conjI)
qed

lemma planner_sorted_large:
  assumes tb: "152 \<le> tb"
    and ds: "calculate_block_durations binary64_ops tb 10 (GROWTH_EXPONENT binary64_ops) = Inr ds"
  shows "sorted ds \<and> sum_list ds = tb"
proof -
  from ds [unfolded planner_binary64] obtain b0 durations where
    b0: "int_div_float binary64_ops tb (Fin 7306719442914520 (- 48)) = Inr b0"
    and loop: "durations_loop binary64_ops b0 (GROWTH_EXPONENT binary64_ops)
                 [0, 1, 2, 3, 4, 5, 6, 7, 8, 9] [] = Inr durations"
    and fin: "(let actual_total = sum_list durations in
       if actual_total \<noteq> tb then
         (if durations = [] then Inl IndexError
          else
            let n = length durations;
                durations1 = durations[n - 1 := durations ! (n - 1) + (tb - actual_total)];
                durations2 = durations1[n - 1 := max 1 (durations1 ! (n - 1))]
            in Inr durations2)
       else Inr durations) = Inr ds"
    by (auto simp: bindE_Inr_iff)
  from tb have tb0: "0 \<le> tb" by simp
  note srt = planner_loop_sorted [OF tb0 b0 loop]
  from durations_loop_binary64 [OF loop] obtain r0 r1 r2 r3 r4 r5 r6 r7 r8 r9 where
    d: "durations = [max 1 r0, max 1 r1, max 1 r2, max 1 r3, max 1 r4, max 1 r5, max 1 r6,
          max 1 r7, max 1 r8, max 1 r9]"
    and r: "b64_round (b64_mul b0 (Fin 1 0)) = Inr r0"
      "b64_round (b64_mul b0 (Fin 5404319552844595 (- 52))) = Inr r1"
      "b64_round (b64_mul b0 (Fin 6485183463413514 (- 52))) = Inr r2"
      "b64_round (b64_mul b0 (Fin 7782220156096216 (- 52))) = Inr r3"
      "b64_round (b64_mul b0 (Fin 4669332093657730 (- 51))) = Inr r4"
      "b64_round (b64_mul b0 (Fin 5603198512389275 (- 51))) = Inr r5"
      "b64_round (b64_mul b0 (Fin 6723838214867130 (- 51))) = Inr r6"
      "b64_round (b64_mul b0 (Fin 8068605857840556 (- 51))) = Inr r7"
      "b64_round (b64_mul b0 (Fin 4841163514704333 (- 50))) = Inr r8"
    by blast
  from r(1) obtain bm be where bf: "b0 = Fin bm be"
    by (cases b0) auto
  note b0' = b0 [unfolded bf]
  note r' = r [unfolded bf]
  define T :: rat where "T = of_int tb"
  have T: "152 \<le> T" using tb by (simp add: T_def)
  have u0: "of_int (max 1 r0) \<le> T * (3853 / 100000) + 1 / 2"
    unfolding T_def
    by (rule planner_elem_upper [OF tb b0' _ _ r'(1)])
       (simp_all add: valof_def power_int_minus)
  have u1: "of_int (max 1 r1) \<le> T * (4623 / 100000) + 1 / 2"
    unfolding T_def
    by (rule planner_elem_upper [OF tb b0' _ _ r'(2)])
       (simp_all add: valof_def power_int_minus)
  have u2: "of_int (max 1 r2) \<le> T * (5548 / 100000) + 1 / 2"
    unfolding T_def
    by (rule planner_elem_upper [OF tb b0' _ _ r'(3)])
       (simp_all add: valof_def power_int_minus)
  have u3: "of_int (max 1 r3) \<le> T * (6657 / 100000) + 1 / 2"
    unfolding T_def
    by (rule planner_elem_upper [OF tb b0' _ _ r'(4)])
       (simp_all add: valof_def power_int_minus)
  have u4: "of_int (max 1 r4) \<le> T * (7989 / 100000) + 1 / 2"
    unfolding T_def
    by (rule planner_elem_upper [OF tb b0' _ _ r'(5)])
       (simp_all add: valof_def power_int_minus)
  have u5: "of_int (max 1 r5) \<le> T * (9586 / 100000) + 1 / 2"
    unfolding T_def
    by (rule planner_elem_upper [OF tb b0' _ _ r'(6)])
       (simp_all add: valof_def power_int_minus)
  have u6: "of_int (max 1 r6) \<le> T * (11503 / 100000) + 1 / 2"
    unfolding T_def
    by (rule planner_elem_upper [OF tb b0' _ _ r'(7)])
       (simp_all add: valof_def power_int_minus)
  have u7: "of_int (max 1 r7) \<le> T * (13804 / 100000) + 1 / 2"
    unfolding T_def
    by (rule planner_elem_upper [OF tb b0' _ _ r'(8)])
       (simp_all add: valof_def power_int_minus)
  have u8: "of_int (max 1 r8) \<le> T * (16565 / 100000) + 1 / 2"
    unfolding T_def
    by (rule planner_elem_upper [OF tb b0' _ _ r'(9)])
       (simp_all add: valof_def power_int_minus)
  define d0 where "d0 = max 1 r0"
  define d1 where "d1 = max 1 r1"
  define d2 where "d2 = max 1 r2"
  define d3 where "d3 = max 1 r3"
  define d4 where "d4 = max 1 r4"
  define d5 where "d5 = max 1 r5"
  define d6 where "d6 = max 1 r6"
  define d7 where "d7 = max 1 r7"
  define d8 where "d8 = max 1 r8"
  define d9 where "d9 = max 1 r9"
  note folds = d0_def [symmetric] d1_def [symmetric] d2_def [symmetric] d3_def [symmetric]
    d4_def [symmetric] d5_def [symmetric] d6_def [symmetric] d7_def [symmetric]
    d8_def [symmetric] d9_def [symmetric]
  note dd = d [unfolded folds]
  note uu = u0 [unfolded folds] u1 [unfolded folds] u2 [unfolded folds] u3 [unfolded folds]
    u4 [unfolded folds] u5 [unfolded folds] u6 [unfolded folds] u7 [unfolded folds]
    u8 [unfolded folds]
  define s9 where "s9 = d0 + d1 + d2 + d3 + d4 + d5 + d6 + d7 + d8"
  have "(of_int (s9 + d8) :: rat) \<le> T * (96693 / 100000) + 5"
    unfolding s9_def of_int_add using uu by linarith
  also have "\<dots> \<le> T" using T by simp
  finally have "s9 + d8 \<le> tb" unfolding T_def by (simp only: of_int_le_iff)
  then have room: "d8 \<le> tb - s9" by linarith
  have sum: "sum_list durations = s9 + d9" by (simp add: dd s9_def)
  have s8: "sorted [d0, d1, d2, d3, d4, d5, d6, d7, d8]"
    using srt unfolding dd by simp
  have "1 \<le> d8" by (simp add: d8_def)
  with room have pos: "1 \<le> tb - s9" by linarith
  have res: "ds = [d0, d1, d2, d3, d4, d5, d6, d7, d8, tb - s9]"
  proof (cases "sum_list durations = tb")
    case True
    with fin have "ds = durations" by simp
    moreover from True sum have "d9 = tb - s9" by simp
    ultimately show ?thesis by (simp add: dd)
  next
    case False
    have len: "length durations = 10" by (simp add: dd)
    have ne: "durations \<noteq> []" by (simp add: dd)
    from False fin have "ds = (durations[9 := durations ! 9 + (tb - sum_list durations)])
        [9 := max 1 ((durations[9 := durations ! 9 + (tb - sum_list durations)]) ! 9)]"
      by (simp add: Let_def len ne)
    also have "\<dots> = [d0, d1, d2, d3, d4, d5, d6, d7, d8, max 1 (d9 + (tb - sum_list durations))]"
      unfolding dd by (simp add: eval_nat_numeral)
    also have "d9 + (tb - sum_list durations) = tb - s9" using sum by simp
    also have "max 1 (tb - s9) = tb - s9" using pos by simp
    finally show ?thesis .
  qed
  have "sorted ds"
    unfolding res using s8 room by simp
  moreover have "sum_list ds = tb" unfolding res by (simp add: s9_def)
  ultimately show ?thesis by simp
qed

lemma small_budgets_a:
  "list_all (\<lambda>tb. last_fits tb = (tb \<notin> {10, 11, 12, 16, 40})) [0..18]"
  by code_simp

lemma small_budgets_b:
  "list_all (\<lambda>tb. last_fits tb = (tb \<notin> {10, 11, 12, 16, 40})) [19..37]"
  by code_simp

lemma small_budgets_c:
  "list_all (\<lambda>tb. last_fits tb = (tb \<notin> {10, 11, 12, 16, 40})) [38..56]"
  by code_simp

lemma small_budgets_d:
  "list_all (\<lambda>tb. last_fits tb = (tb \<notin> {10, 11, 12, 16, 40})) [57..75]"
  by code_simp

lemma small_budgets_e:
  "list_all (\<lambda>tb. last_fits tb = (tb \<notin> {10, 11, 12, 16, 40})) [76..94]"
  by code_simp

lemma small_budgets_f:
  "list_all (\<lambda>tb. last_fits tb = (tb \<notin> {10, 11, 12, 16, 40})) [95..113]"
  by code_simp

lemma small_budgets_g:
  "list_all (\<lambda>tb. last_fits tb = (tb \<notin> {10, 11, 12, 16, 40})) [114..132]"
  by code_simp

lemma small_budgets_h:
  "list_all (\<lambda>tb. last_fits tb = (tb \<notin> {10, 11, 12, 16, 40})) [133..151]"
  by code_simp

lemma list_all_upto: "list_all P [l..u] \<Longrightarrow> l \<le> x \<Longrightarrow> x \<le> u \<Longrightarrow> P x"
  by (simp add: list_all_iff)

lemma small_budgets:
  assumes "0 \<le> tb" and "tb \<le> 151"
  shows "last_fits tb = (tb \<notin> {10, 11, 12, 16, 40})"
proof -
  from assms consider "0 \<le> tb \<and> tb \<le> 18" | "19 \<le> tb \<and> tb \<le> 37"
    | "38 \<le> tb \<and> tb \<le> 56" | "57 \<le> tb \<and> tb \<le> 75" | "76 \<le> tb \<and> tb \<le> 94"
    | "95 \<le> tb \<and> tb \<le> 113" | "114 \<le> tb \<and> tb \<le> 132" | "133 \<le> tb \<and> tb \<le> 151"
    by linarith
  then show ?thesis
  proof cases
    case 1
    then show ?thesis using list_all_upto [OF small_budgets_a, of tb] by blast
  next
    case 2
    then show ?thesis using list_all_upto [OF small_budgets_b, of tb] by blast
  next
    case 3
    then show ?thesis using list_all_upto [OF small_budgets_c, of tb] by blast
  next
    case 4
    then show ?thesis using list_all_upto [OF small_budgets_d, of tb] by blast
  next
    case 5
    then show ?thesis using list_all_upto [OF small_budgets_e, of tb] by blast
  next
    case 6
    then show ?thesis using list_all_upto [OF small_budgets_f, of tb] by blast
  next
    case 7
    then show ?thesis using list_all_upto [OF small_budgets_g, of tb] by blast
  next
    case 8
    then show ?thesis using list_all_upto [OF small_budgets_h, of tb] by blast
  qed
qed

lemma durations_loop_tabulated:
  "durations_loop binary64_ops b0 (GROWTH_EXPONENT binary64_ops) [0, 1, 2, 3, 4, 5, 6, 7, 8, 9] []
     = tabulated_loop b0 growth_powers []"
proof -
  have sel: "round_f binary64_ops = b64_round" "mul_f binary64_ops = b64_mul"
    by (simp_all add: binary64_ops_def)
  show ?thesis
    by (simp add: growth_power_values growth_powers_def sel Let_def
          del: b64_mul.simps b64_round.simps)
qed

lemma planner_result:
  assumes tb: "0 \<le> tb"
    and ds: "calculate_block_durations binary64_ops tb 10 (GROWTH_EXPONENT binary64_ops) = Inr ds"
  shows "sorted (butlast ds) \<and> (sorted ds \<longleftrightarrow> last_fits tb)"
proof -
  from ds [unfolded planner_binary64] obtain b0 durations where
    b0: "int_div_float binary64_ops tb (Fin 7306719442914520 (- 48)) = Inr b0"
    and loop: "durations_loop binary64_ops b0 (GROWTH_EXPONENT binary64_ops)
                 [0, 1, 2, 3, 4, 5, 6, 7, 8, 9] [] = Inr durations"
    and fin: "(let actual_total = sum_list durations in
       if actual_total \<noteq> tb then
         (if durations = [] then Inl IndexError
          else
            let n = length durations;
                durations1 = durations[n - 1 := durations ! (n - 1) + (tb - actual_total)];
                durations2 = durations1[n - 1 := max 1 (durations1 ! (n - 1))]
            in Inr durations2)
       else Inr durations) = Inr ds"
    by (auto simp: bindE_Inr_iff)
  note srt = planner_loop_sorted [OF tb b0 loop]
  from durations_loop_shape [OF loop] obtain d0 d1 d2 d3 d4 d5 d6 d7 d8 d9 where
    dd: "durations = [d0, d1, d2, d3, d4, d5, d6, d7, d8, d9]" and d9: "1 \<le> d9"
    by (auto simp: length_Suc_conv eval_nat_numeral)
  define s9 where "s9 = d0 + d1 + d2 + d3 + d4 + d5 + d6 + d7 + d8"
  have sum: "sum_list durations = s9 + d9" by (simp add: dd s9_def)
  have s8: "sorted [d0, d1, d2, d3, d4, d5, d6, d7, d8]"
    using srt unfolding dd by simp
  have res: "ds = [d0, d1, d2, d3, d4, d5, d6, d7, d8, max 1 (tb - s9)]"
  proof (cases "sum_list durations = tb")
    case True
    with fin have "ds = durations" by simp
    moreover from True sum d9 have "max 1 (tb - s9) = d9" by simp
    ultimately show ?thesis by (simp add: dd)
  next
    case False
    have len: "length durations = 10" by (simp add: dd)
    have ne: "durations \<noteq> []" by (simp add: dd)
    from False fin have "ds = (durations[9 := durations ! 9 + (tb - sum_list durations)])
        [9 := max 1 ((durations[9 := durations ! 9 + (tb - sum_list durations)]) ! 9)]"
      by (simp add: Let_def len ne)
    also have "\<dots> = [d0, d1, d2, d3, d4, d5, d6, d7, d8, max 1 (d9 + (tb - sum_list durations))]"
      unfolding dd by (simp add: eval_nat_numeral)
    also have "d9 + (tb - sum_list durations) = tb - s9" using sum by simp
    finally show ?thesis .
  qed
  have fits: "last_fits tb \<longleftrightarrow> d8 \<le> max 1 (tb - s9)"
    using b0 loop [unfolded durations_loop_tabulated]
    by (simp add: last_fits_def dd s9_def add.assoc)
  define v where "v = max 1 (tb - s9)"
  have "sorted (butlast ds)" unfolding res using s8 by simp
  moreover have "sorted ds \<longleftrightarrow> d8 \<le> v"
    unfolding res v_def [symmetric] using s8 by auto
  ultimately show ?thesis using fits by (simp add: v_def)
qed


section \<open>The claims\<close>

text \<open>
  C1. For every valid request (\<open>auction_blocks \<ge> 1\<close>, \<open>prebid_blocks \<ge> 0\<close>) on which
  \<open>generate_schedule\<close> returns a schedule, the sum over all phases of
  \<open>mps * blockDelta\<close> equals \<open>TOTAL_TARGET\<close> exactly. It holds for any float
  arithmetic: the final phase is the integer remainder.
\<close>

theorem total_supply_exact:
  assumes "1 \<le> auction_blocks" and "0 \<le> prebid_blocks"
    and "generate_schedule fo auction_blocks prebid_blocks = Inr schedule"
  shows "total_supply schedule = TOTAL_TARGET"
proof -
  from generate_schedule_shape [OF assms(3)] obtain new where
    "schedule = (if 0 < prebid_blocks then [\<lparr>mps = 0, blockDelta = prebid_blocks\<rparr>] else [])
        @ new @ [\<lparr>mps = TOTAL_TARGET - total_supply new, blockDelta = 1\<rparr>]"
    by blast
  then show ?thesis by simp
qed

theorem total_supply_exact_witness:
  "map_sum id total_supply (generate_schedule binary64_ops 86400 43200) = Inr 10000000"
  using total_supply_exact [OF _ _ generate_schedule_86400_43200]
  by (simp add: generate_schedule_86400_43200 TOTAL_TARGET_def)




text \<open>
  C3, as the code has it. Validation rejects the requests with \<open>auction_blocks < 1\<close> or
  \<open>prebid_blocks < 0\<close> before the schedule is computed, and accepts every other request:
  it compares \<open>auction_blocks\<close> neither with \<open>prebid_blocks\<close> nor with
  \<open>NUM_SEGMENTS + 1\<close>. No partial schedule is returned: an answer that carries a
  schedule carries the whole result of \<open>generate_schedule\<close>, and is given only for
  \<open>auction_blocks \<ge> 2\<close>.
\<close>

theorem request_validation:
  "(auction_blocks < 1 \<or> prebid_blocks < 0 \<longrightarrow>
      call_tool fo ''generate_supply_schedule'' auction_blocks (Some prebid_blocks)
        = Inr (Failed ValidationError))
   \<and> (1 \<le> auction_blocks \<and> 0 \<le> prebid_blocks \<longrightarrow>
      GenerateScheduleInput auction_blocks (Some prebid_blocks)
        = Inr (auction_blocks, prebid_blocks))
   \<and> (call_tool fo ''generate_supply_schedule'' auction_blocks (Some prebid_blocks)
        = Inr (Output out) \<longrightarrow>
      2 \<le> auction_blocks \<and> 0 \<le> prebid_blocks
      \<and> generate_schedule fo auction_blocks prebid_blocks = Inr (schedule_out out))"
proof (intro conjI impI)
  assume "auction_blocks < 1 \<or> prebid_blocks < 0"
  then show "call_tool fo ''generate_supply_schedule'' auction_blocks (Some prebid_blocks)
      = Inr (Failed ValidationError)"
    by (simp add: call_tool_def tool_body_def GenerateScheduleInput_Some)
next
  assume "1 \<le> auction_blocks \<and> 0 \<le> prebid_blocks"
  then show "GenerateScheduleInput auction_blocks (Some prebid_blocks)
      = Inr (auction_blocks, prebid_blocks)"
    by (simp add: GenerateScheduleInput_Some)
next
  assume c: "call_tool fo ''generate_supply_schedule'' auction_blocks (Some prebid_blocks)
      = Inr (Output out)"
  then have tb: "tool_body fo auction_blocks (Some prebid_blocks) = Inr out"
    by (auto simp: call_tool_def split: sum.splits)
  note r = tool_body_Inr [OF tb]
  have "auction_blocks \<noteq> 1"
  proof
    assume "auction_blocks = 1"
    with r generate_schedule_one_block [of fo prebid_blocks] show False by auto
  qed
  with r show "2 \<le> auction_blocks" by simp
  from r show "0 \<le> prebid_blocks" by simp
  from r show "generate_schedule fo auction_blocks prebid_blocks = Inr (schedule_out out)" by simp
qed

theorem request_validation_witness:
  "call_tool binary64_ops ''generate_supply_schedule'' 0 (Some 0) = Inr (Failed ValidationError)
   \<and> GenerateScheduleInput 5 (Some 10) = Inr (5, 10)
   \<and> generate_schedule binary64_ops 86400 0 = Inr (schedule_out
        \<lparr>schedule_out =
          [\<lparr>mps = 42, blockDelta = 3328\<rparr>, \<lparr>mps = 55, blockDelta = 3994\<rparr>,
           \<lparr>mps = 63, blockDelta = 4793\<rparr>, \<lparr>mps = 68, blockDelta = 5751\<rparr>,
           \<lparr>mps = 73, blockDelta = 6902\<rparr>, \<lparr>mps = 78, blockDelta = 8282\<rparr>,
           \<lparr>mps = 82, blockDelta = 9938\<rparr>, \<lparr>mps = 87, blockDelta = 11926\<rparr>,
           \<lparr>mps = 91, blockDelta = 14311\<rparr>, \<lparr>mps = 95, blockDelta = 17174\<rparr>,
           \<lparr>mps = 3011376, blockDelta = 1\<rparr>],
         auction_blocks_out = 86400, prebid_blocks_out = 0, total_phases = 11,
         summary_out = \<lparr>total_mps = 10000000, target_mps = TOTAL_TARGET,
                         final_block_mps = 3011376,
                         final_block_percentage = Fin 8475211548757852 (- 48),
                         num_segments = NUM_SEGMENTS,
                         growth_exponent = GROWTH_EXPONENT binary64_ops\<rparr>\<rparr>)"
proof -
  have answered: "call_tool binary64_ops ''generate_supply_schedule'' 86400 (Some 0) = Inr (Output
        \<lparr>schedule_out =
          [\<lparr>mps = 42, blockDelta = 3328\<rparr>, \<lparr>mps = 55, blockDelta = 3994\<rparr>,
           \<lparr>mps = 63, blockDelta = 4793\<rparr>, \<lparr>mps = 68, blockDelta = 5751\<rparr>,
           \<lparr>mps = 73, blockDelta = 6902\<rparr>, \<lparr>mps = 78, blockDelta = 8282\<rparr>,
           \<lparr>mps = 82, blockDelta = 9938\<rparr>, \<lparr>mps = 87, blockDelta = 11926\<rparr>,
           \<lparr>mps = 91, blockDelta = 14311\<rparr>, \<lparr>mps = 95, blockDelta = 17174\<rparr>,
           \<lparr>mps = 3011376, blockDelta = 1\<rparr>],
         auction_blocks_out = 86400, prebid_blocks_out = 0, total_phases = 11,
         summary_out = \<lparr>total_mps = 10000000, target_mps = TOTAL_TARGET,
                         final_block_mps = 3011376,
                         final_block_percentage = Fin 8475211548757852 (- 48),
                         num_segments = NUM_SEGMENTS,
                         growth_exponent = GROWTH_EXPONENT binary64_ops\<rparr>\<rparr>)"
    by (simp add: call_tool_def tool_body_86400)
  from request_validation [of 0 0 binary64_ops]
  have "call_tool binary64_ops ''generate_supply_schedule'' 0 (Some 0) = Inr (Failed ValidationError)"
    by simp
  moreover from request_validation [of 5 10 binary64_ops]
  have "GenerateScheduleInput 5 (Some 10) = Inr (5, 10)"
    by simp
  moreover note request_validation [of 86400 0 binary64_ops, THEN conjunct2, THEN conjunct2,
      THEN mp, OF answered, THEN conjunct2, THEN conjunct2]
  ultimately show ?thesis by simp
qed

text \<open>
  The claim as stated fails on the request of one block: validation accepts it, and the
  computation runs into the division by \<open>blocks_for_segments = 0\<close>, which the handler
  reports.
\<close>

theorem request_validation_counterexample:
  "GenerateScheduleInput 1 None = Inr (1, 0)
   \<and> call_tool binary64_ops ''generate_supply_schedule'' 1 None = Inr (Failed ZeroDivisionError)"
  by (simp add: GenerateScheduleInput_def call_tool_def tool_body_def generate_schedule_1_0)

text \<open>
  C4, as the code has it. For every \<open>segment_count > 0\<close> on which
  \<open>calculate_block_durations\<close> returns, it returns \<open>segment_count\<close> integers, each at
  least 1. Their sum is the larger of \<open>total_blocks\<close> and the sum of all but the last
  plus 1: the last duration takes the residual, and is then floored at 1. The sum is
  \<open>total_blocks\<close> exactly when the durations before the last leave at least one block,
  and is never less than \<open>segment_count\<close>.
\<close>

theorem durations_contract:
  assumes "0 < segment_count"
    and "calculate_block_durations fo total_blocks segment_count growth_factor = Inr durations"
  shows "length durations = nat segment_count
       \<and> (\<forall>d \<in> set durations. 1 \<le> d)
       \<and> sum_list durations = max total_blocks (sum_list (butlast durations) + 1)
       \<and> segment_count \<le> sum_list durations"
proof -
  note sh = calculate_block_durations_shape [OF assms(2)]
  have ge: "int (length xs) \<le> sum_list xs" if "\<forall>d \<in> set xs. 1 \<le> d" for xs :: "int list"
    using that by (induction xs) auto
  have "segment_count \<le> sum_list durations"
    using ge [OF sh(2)] sh(1) assms(1) by simp
  with sh(1,2) calculate_block_durations_sum [OF assms(2,1)] show ?thesis by simp
qed

theorem durations_contract_witness:
  "calculate_block_durations binary64_ops 86399 10 (GROWTH_EXPONENT binary64_ops)
     = Inr [3328, 3994, 4793, 5751, 6902, 8282, 9938, 11926, 14311, 17174]
   \<and> sum_list [3328, 3994, 4793, 5751, 6902, 8282, 9938, 11926, 14311, 17174] = (86399 :: int)"
  using durations_contract [OF _ durations_86399]
  by (simp add: durations_86399)

text \<open>
  The claim as stated fails for one block in ten segments at the growth factor 1.2: the
  ten durations are 1 each and sum to 10.
\<close>

theorem durations_contract_counterexample:
  "GROWTH_EXPONENT binary64_ops = Fin 5404319552844595 (- 52)
   \<and> gt_one 5404319552844595 (- 52)
   \<and> calculate_block_durations binary64_ops 1 10 (GROWTH_EXPONENT binary64_ops)
       = Inr [1, 1, 1, 1, 1, 1, 1, 1, 1, 1]
   \<and> sum_list [1, 1, 1, 1, 1, 1, 1, 1, 1, 1] \<noteq> (1 :: int)"
  using durations_1 growth_exponent_binary64 by (simp add: gt_one_def)

text \<open>
  C5. Every phase of a schedule returned for a valid request should have
  \<open>blockDelta \<ge> 1\<close> and \<open>mps \<ge> 0\<close>. The code breaks it on the request of two blocks:
  the ten segments take one block each, ten times the budget of one block, so the curve
  is sampled up to ten times the interval it is scaled for, the segments allocate
  110942524 units, and the final phase, the remainder, has a negative rate.
\<close>

theorem final_rate_negative_at_two_blocks:
  "generate_schedule binary64_ops 2 0 = Inr
     [\<lparr>mps = 7000000, blockDelta = 1\<rparr>, \<lparr>mps = 9081777, blockDelta = 1\<rparr>,
      \<lparr>mps = 10078573, blockDelta = 1\<rparr>, \<lparr>mps = 10785872, blockDelta = 1\<rparr>,
      \<lparr>mps = 11344317, blockDelta = 1\<rparr>, \<lparr>mps = 11810163, blockDelta = 1\<rparr>,
      \<lparr>mps = 12212184, blockDelta = 1\<rparr>, \<lparr>mps = 12567243, blockDelta = 1\<rparr>,
      \<lparr>mps = 12886143, blockDelta = 1\<rparr>, \<lparr>mps = 13176252, blockDelta = 1\<rparr>,
      \<lparr>mps = - 100942524, blockDelta = 1\<rparr>]
   \<and> \<not> 0 \<le> mps \<lparr>mps = - 100942524, blockDelta = 1\<rparr>"
  by (simp add: generate_schedule_2_0)

text \<open>
  What holds of the phases for any float arithmetic: every phase has
  \<open>blockDelta \<ge> 1\<close>, the prebid phase has \<open>mps = 0\<close>, and the final phase's \<open>mps\<close> is
  \<open>TOTAL_TARGET\<close> minus the allocation of the phases before it.
\<close>

theorem phase_invariants:
  assumes "1 \<le> auction_blocks" and "0 \<le> prebid_blocks"
    and "generate_schedule fo auction_blocks prebid_blocks = Inr schedule"
  shows "(\<forall>p \<in> set schedule. 1 \<le> blockDelta p)
       \<and> (0 < prebid_blocks \<longrightarrow> mps (hd schedule) = 0)
       \<and> mps (last schedule) = TOTAL_TARGET - total_supply (butlast schedule)"
proof -
  from generate_schedule_shape [OF assms(3)] obtain ds new where
    ds: "calculate_block_durations fo (auction_blocks - 1) NUM_SEGMENTS (GROWTH_EXPONENT fo) = Inr ds"
    and new: "map blockDelta new = ds"
    and s: "schedule = (if 0 < prebid_blocks then [\<lparr>mps = 0, blockDelta = prebid_blocks\<rparr>] else [])
        @ new @ [\<lparr>mps = TOTAL_TARGET - total_supply new, blockDelta = 1\<rparr>]"
    by blast
  have "\<forall>d \<in> set ds. 1 \<le> d"
    using calculate_block_durations_shape(2) [OF ds] .
  with new have pos: "\<forall>p \<in> set new. 1 \<le> blockDelta p" by auto
  have b: "butlast schedule =
      (if 0 < prebid_blocks then [\<lparr>mps = 0, blockDelta = prebid_blocks\<rparr>] else []) @ new"
    unfolding s by (simp add: butlast_append)
  have "\<forall>p \<in> set schedule. 1 \<le> blockDelta p"
    unfolding s using pos by auto
  moreover have "0 < prebid_blocks \<longrightarrow> mps (hd schedule) = 0"
    unfolding s by simp
  moreover have "mps (last schedule) = TOTAL_TARGET - total_supply (butlast schedule)"
    unfolding b unfolding s by simp
  ultimately show ?thesis by simp
qed

theorem phase_invariants_witness:
  "map_sum id
     (\<lambda>s. (list_all (\<lambda>p. 1 \<le> blockDelta p) s, mps (hd s),
           mps (last s) = TOTAL_TARGET - total_supply (butlast s)))
     (generate_schedule binary64_ops 86400 43200) = Inr (True, 0, True)"
  using phase_invariants [OF _ _ generate_schedule_86400_43200]
  by (simp add: generate_schedule_86400_43200 TOTAL_TARGET_def)

text \<open>
  C6, as the code has it, on binary64. For every valid request on which the planner
  returns, the durations are non-decreasing, \<open>blockDelta[i] \<ge> blockDelta[i - 1]\<close> for
  every \<open>i\<close> from 1 to \<open>NUM_SEGMENTS - 1\<close>, except for \<open>auction_blocks\<close> 11, 12, 13, 17
  and 41. There the first nine durations are still non-decreasing, and the last one, the
  residual \<open>max 1 (blocks_for_segments - sum of the first nine)\<close>, is smaller than the
  ninth.
\<close>

theorem durations_sorted_except:
  assumes "1 \<le> auction_blocks"
    and "calculate_block_durations binary64_ops (auction_blocks - 1) NUM_SEGMENTS
           (GROWTH_EXPONENT binary64_ops) = Inr durations"
  shows "sorted (butlast durations)
       \<and> last durations = max 1 (auction_blocks - 1 - sum_list (butlast durations))
       \<and> (sorted durations \<longleftrightarrow> auction_blocks \<notin> {11, 12, 13, 17, 41})"
proof -
  let ?tb = "auction_blocks - 1"
  from assms(1) have tb: "0 \<le> ?tb" by simp
  note ds = assms(2) [unfolded NUM_SEGMENTS_def]
  note res = planner_result [OF tb ds]
  have "durations \<noteq> []"
    using calculate_block_durations_shape(1) [OF assms(2)] by (auto simp: NUM_SEGMENTS_def)
  then have l: "last durations = max 1 (?tb - sum_list (butlast durations))"
    using calculate_block_durations_shape(3) [OF assms(2)] by simp
  have "sorted durations \<longleftrightarrow> auction_blocks \<notin> {11, 12, 13, 17, 41}"
  proof (cases "152 \<le> ?tb")
    case True
    from planner_sorted_large [OF True ds] True show ?thesis by auto
  next
    case False
    then have "?tb \<le> 151" by simp
    from small_budgets [OF tb this] res show ?thesis by auto
  qed
  with res l show ?thesis by simp
qed

theorem durations_sorted_except_witness:
  "(1::int) \<le> 86400
   \<and> calculate_block_durations binary64_ops (86400 - 1) NUM_SEGMENTS
         (GROWTH_EXPONENT binary64_ops)
       = Inr [3328, 3994, 4793, 5751, 6902, 8282, 9938, 11926, 14311, 17174]
   \<and> sorted (butlast [3328, 3994, 4793, 5751, 6902, 8282, 9938, 11926, 14311, 17174 :: int])
   \<and> last [3328, 3994, 4793, 5751, 6902, 8282, 9938, 11926, 14311, 17174 :: int]
       = max 1 (86400 - 1
           - sum_list (butlast [3328, 3994, 4793, 5751, 6902, 8282, 9938, 11926, 14311, 17174]))
   \<and> (sorted [3328, 3994, 4793, 5751, 6902, 8282, 9938, 11926, 14311, 17174 :: int]
        \<longleftrightarrow> (86400::int) \<notin> {11, 12, 13, 17, 41})"
  using durations_sorted_except [of 86400
      "[3328, 3994, 4793, 5751, 6902, 8282, 9938, 11926, 14311, 17174]"]
  by (simp add: NUM_SEGMENTS_def durations_86399)

text \<open>
  The claim as stated fails on the request of twelve blocks: the rounded durations sum to
  13 for a budget of 11, and the corrected last duration is 1, after two durations of 2.
\<close>

theorem durations_sorted_counterexample:
  "calculate_block_durations binary64_ops (12 - 1) NUM_SEGMENTS (GROWTH_EXPONENT binary64_ops)
     = Inr [1, 1, 1, 1, 1, 1, 1, 2, 2, 1]
   \<and> \<not> sorted [1, 1, 1, 1, 1, 1, 1, 2, 2, 1 :: int]"
  by (simp add: NUM_SEGMENTS_def durations_11)

text \<open>
  C8. For every valid request with \<open>prebid_blocks > 0\<close> on which a schedule is returned,
  its first phase is \<open>\<lparr>mps = 0, blockDelta = prebid_blocks\<rparr>\<close>, before the
  \<open>NUM_SEGMENTS\<close> segment phases and the final phase. With \<open>prebid_blocks = 0\<close> no
  prefix phase is emitted: the schedule is the \<open>NUM_SEGMENTS\<close> segment phases, whose
  durations are the planned ones, and the final phase.
\<close>

theorem prebid_shape:
  assumes "1 \<le> auction_blocks" and "0 \<le> prebid_blocks"
    and "generate_schedule fo auction_blocks prebid_blocks = Inr schedule"
  shows "(0 < prebid_blocks \<longrightarrow>
            hd schedule = \<lparr>mps = 0, blockDelta = prebid_blocks\<rparr>
          \<and> length schedule = nat NUM_SEGMENTS + 2)
       \<and> (prebid_blocks = 0 \<longrightarrow>
            length schedule = nat NUM_SEGMENTS + 1
          \<and> calculate_block_durations fo (auction_blocks - 1) NUM_SEGMENTS (GROWTH_EXPONENT fo)
              = Inr (map blockDelta (butlast schedule)))"
proof -
  from generate_schedule_shape [OF assms(3)] obtain ds new where
    ds: "calculate_block_durations fo (auction_blocks - 1) NUM_SEGMENTS (GROWTH_EXPONENT fo) = Inr ds"
    and new: "map blockDelta new = ds"
    and s: "schedule = (if 0 < prebid_blocks then [\<lparr>mps = 0, blockDelta = prebid_blocks\<rparr>] else [])
        @ new @ [\<lparr>mps = TOTAL_TARGET - total_supply new, blockDelta = 1\<rparr>]"
    by blast
  have "length ds = nat NUM_SEGMENTS"
    using calculate_block_durations_shape(1) [OF ds] .
  with new have len: "length new = nat NUM_SEGMENTS"
    by (metis length_map)
  have "0 < prebid_blocks \<longrightarrow>
      hd schedule = \<lparr>mps = 0, blockDelta = prebid_blocks\<rparr> \<and> length schedule = nat NUM_SEGMENTS + 2"
    unfolding s using len by simp
  moreover have "prebid_blocks = 0 \<longrightarrow> length schedule = nat NUM_SEGMENTS + 1
      \<and> calculate_block_durations fo (auction_blocks - 1) NUM_SEGMENTS (GROWTH_EXPONENT fo)
              = Inr (map blockDelta (butlast schedule))"
    unfolding s using len ds new by (simp add: butlast_append)
  ultimately show ?thesis by simp
qed

theorem prebid_shape_witness:
  "map_sum id (\<lambda>s. (hd s, length s)) (generate_schedule binary64_ops 86400 43200)
     = Inr (\<lparr>mps = 0, blockDelta = 43200\<rparr>, 12)
   \<and> map_sum id (\<lambda>s. (map blockDelta (butlast s), length s))
         (generate_schedule binary64_ops 86400 0)
     = Inr ([3328, 3994, 4793, 5751, 6902, 8282, 9938, 11926, 14311, 17174], 11)"
  using prebid_shape [OF _ _ generate_schedule_86400_43200]
    prebid_shape [OF _ _ generate_schedule_86400_0]
  by (simp add: generate_schedule_86400_43200 generate_schedule_86400_0)



text \<open>
  C10. For every \<open>auction_blocks \<ge> 2\<close> and \<open>prebid_blocks > 0\<close>, the result of
  \<open>generate_schedule auction_blocks prebid_blocks\<close> is the result for
  \<open>prebid_blocks = 0\<close> with the phase \<open>\<lparr>mps = 0, blockDelta = prebid_blocks\<rparr>\<close>
  prepended (and the same exception where that call raises): the prebid period changes
  no segment phase and not the final phase.
\<close>

theorem prebid_only_prepends:
  assumes "2 \<le> auction_blocks" and "0 < prebid_blocks"
  shows "generate_schedule fo auction_blocks prebid_blocks =
     (case generate_schedule fo auction_blocks 0 of
        Inl e \<Rightarrow> Inl e
      | Inr schedule \<Rightarrow> Inr (\<lparr>mps = 0, blockDelta = prebid_blocks\<rparr> # schedule))"
  using generate_schedule_prebid [OF assms(2), of fo auction_blocks]
  by (simp add: bindE_def)

theorem prebid_only_prepends_witness:
  "generate_schedule binary64_ops 86400 43200
     = map_sum id ((#) \<lparr>mps = 0, blockDelta = 43200\<rparr>) (generate_schedule binary64_ops 86400 0)
   \<and> \<not> isl (generate_schedule binary64_ops 86400 0)"
  using prebid_only_prepends [of 86400 43200 binary64_ops]
  by (simp add: generate_schedule_86400_0)

section \<open>The final phase at the durations of the tests\<close>

text \<open>
  At the four durations of \<open>test_logic.py\<close>, 14400, 43200, 86400 and 604800 blocks with
  no prebid period, the rate of the final phase is between 25 and 35 percent of
  \<open>TOTAL_TARGET\<close>, evaluated on binary64.
\<close>

theorem final_share_at_tested_durations:
  "map (\<lambda>auction_blocks.
          map_sum id (\<lambda>schedule. mps (last schedule))
            (generate_schedule binary64_ops auction_blocks 0))
       [14400, 43200, 86400, 604800]
     = [Inr 2998935, Inr 3006536, Inr 3011376, Inr 2989197]
   \<and> list_all (\<lambda>final_tokens. 25 * TOTAL_TARGET \<le> 100 * final_tokens
                      \<and> 100 * final_tokens \<le> 35 * TOTAL_TARGET)
       [2998935, 3006536, 3011376, 2989197]"
  by (simp add: generate_schedule_14400_0 generate_schedule_43200_0 generate_schedule_86400_0
      generate_schedule_604800_0 TOTAL_TARGET_def)

end
